theory Spec2Isabelle
  imports Complex_Main "HOL-Library.Monad_Syntax"
begin

section \<open>Numbers\<close>

text \<open>
  A JavaScript \<^verbatim>\<open>number\<close> is an IEEE 754 binary64 value, and every arithmetic operator
  returns the exact result of the operation rounded to the nearest binary64 value. The
  model keeps the finite numbers as reals and takes the rounding as a parameter
  \<open>fl :: real \<Rightarrow> real\<close> of every function that computes: \<open>fl (a - b)\<close> is the
  JavaScript \<^verbatim>\<open>a - b\<close>. The rounding of the language is \<open>binary64\<close>, and every property of
  the code is stated with it. The other instance, \<open>exact\<close>, rounds nothing: it is not an
  arithmetic of the code, and it appears only beside the binary64 result of the example
  of claim C1, where the two agree.

  \<open>binary64\<close> rounds to 53 significant bits, ties to the even significand, with the
  subnormal spacing \<open>2 powi - 1074\<close> below \<open>2 powi - 1022\<close>. Values beyond the largest
  finite binary64 number (which JavaScript turns into \<^verbatim>\<open>Infinity\<close>) are outside the
  model, as are \<^verbatim>\<open>NaN\<close> and the sign of zero.
\<close>

definition round_half_even :: "real \<Rightarrow> int" where
  "round_half_even v =
     (let f = \<lfloor>v\<rfloor>; d = v - of_int f
      in if d < 1 / 2 then f
         else if 1 / 2 < d then f + 1
         else if even f then f else f + 1)"

definition binary64 :: "real \<Rightarrow> real" where
  "binary64 v =
     (if v = 0 then 0
      else let e = max (\<lfloor>log 2 \<bar>v\<bar>\<rfloor> - 52) (- 1074)
           in of_int (round_half_even (v / 2 powi e)) * 2 powi e)"

definition exact :: "real \<Rightarrow> real" where
  "exact v = v"

text \<open>
  \<^verbatim>\<open>a / b\<close>. A zero divisor gives \<^verbatim>\<open>Infinity\<close> or \<^verbatim>\<open>NaN\<close> in JavaScript, never an
  exception. Such a value is not a finite number: the model returns \<open>None\<close> for it and
  does not follow the computation further.
\<close>

definition divide_number :: "(real \<Rightarrow> real) \<Rightarrow> real \<Rightarrow> real \<Rightarrow> real option" where
  "divide_number fl a b = (if b = 0 then None else Some (fl (a / b)))"

text \<open>\<^verbatim>\<open>Math.round\<close>: the nearest integer, a tie going up.\<close>

definition Math_round :: "real \<Rightarrow> real" where
  "Math_round v = of_int \<lfloor>v + 1 / 2\<rfloor>"

subsection \<open>The size of a rounding error\<close>

text \<open>
  The unit roundoff of binary64, which bounds the relative error of one rounding of a
  normal number; \<open>eta\<close>, half the spacing of the subnormal numbers, which bounds the
  error of a rounding near zero; and \<open>close n p q\<close>: the positive numbers \<open>p\<close> and
  \<open>q\<close> are equal up to \<open>n\<close> roundings, each being at least the other times
  \<open>(1 - unit_roundoff) ^ n\<close>.
\<close>

definition unit_roundoff :: real where
  "unit_roundoff = 1 / 2 ^ 53"

definition eta :: real where
  "eta = 1 / 2 ^ 1075"

definition close :: "nat \<Rightarrow> real \<Rightarrow> real \<Rightarrow> bool" where
  "close n p q \<longleftrightarrow>
     0 < p \<and> 0 < q \<and> q * (1 - unit_roundoff) ^ n \<le> p \<and> p * (1 - unit_roundoff) ^ n \<le> q"

section \<open>The geometry function\<close>

text \<open>
  \<^verbatim>\<open>interface MaskState { x: number; y: number; w: number; h: number }\<close>, the two
  properties of the video element and the two of \<^verbatim>\<open>window\<close> that \<^verbatim>\<open>drawClipped\<close> reads,
  and the eight numbers it passes to \<^verbatim>\<open>ctx.drawImage\<close> after the image: the source
  rectangle and the destination rectangle.
\<close>

record MaskState =
  x :: real
  y :: real
  w :: real
  h :: real

record video_el =
  videoWidth :: real
  videoHeight :: real

record window =
  innerWidth :: real
  innerHeight :: real

record placement =
  dw :: real
  dh :: real
  dx :: real
  dy :: real

record drawImage_args =
  sx :: real
  sy :: real
  sw :: real
  sh :: real
  dest_x :: real
  dest_y :: real
  dest_w :: real
  dest_h :: real

text \<open>
  Lines 43 to 58 of \<^verbatim>\<open>drawClipped\<close>: the two aspect ratios and the rectangle
  \<open>(dx, dy, dw, dh)\<close> that the video occupies in the viewport.
\<close>

definition fit :: "(real \<Rightarrow> real) \<Rightarrow> video_el \<Rightarrow> window \<Rightarrow> placement option" where
  "fit fl video win =
     do {
       videoAspect \<leftarrow> divide_number fl (videoWidth video) (videoHeight video);
       windowAspect \<leftarrow> divide_number fl (innerWidth win) (innerHeight win);
       if videoAspect > windowAspect then
         let dh0 = innerHeight win;
             dw0 = fl (dh0 * videoAspect)
         in Some \<lparr>dw = dw0, dh = dh0, dx = fl (fl (innerWidth win - dw0) / 2), dy = 0\<rparr>
       else
         do {
           let dw0 = innerWidth win;
           dh0 \<leftarrow> divide_number fl dw0 videoAspect;
           Some \<lparr>dw = dw0, dh = dh0, dx = 0, dy = fl (fl (innerHeight win - dh0) / 2)\<rparr>
         }
     }"

text \<open>Lines 60 and 61: the two factors from viewport lengths to source lengths.\<close>

definition scaleX :: "(real \<Rightarrow> real) \<Rightarrow> video_el \<Rightarrow> placement \<Rightarrow> real option" where
  "scaleX fl video p = divide_number fl (videoWidth video) (dw p)"

definition scaleY :: "(real \<Rightarrow> real) \<Rightarrow> video_el \<Rightarrow> placement \<Rightarrow> real option" where
  "scaleY fl video p = divide_number fl (videoHeight video) (dh p)"

text \<open>
  \<^verbatim>\<open>drawClipped\<close>, as the arguments of its one \<^verbatim>\<open>drawImage\<close> call; \<open>None\<close> when a
  divisor on the way is zero.
\<close>

definition drawClipped ::
  "(real \<Rightarrow> real) \<Rightarrow> video_el \<Rightarrow> window \<Rightarrow> MaskState \<Rightarrow> drawImage_args option" where
  "drawClipped fl video win rect =
     do {
       p \<leftarrow> fit fl video win;
       kx \<leftarrow> scaleX fl video p;
       ky \<leftarrow> scaleY fl video p;
       Some \<lparr>sx = fl (fl (x rect - dx p) * kx),
             sy = fl (fl (y rect - dy p) * ky),
             sw = fl (w rect * kx),
             sh = fl (h rect * ky),
             dest_x = 0,
             dest_y = 0,
             dest_w = w rect,
             dest_h = h rect\<rparr>
     }"

subsection \<open>The cover fit in the words of the specification\<close>

text \<open>
  The specification describes the geometry function as the object-fit cover mapping: the
  video is scaled by the larger of the two ratios viewport length over video length, the
  scaled video is centred in the viewport, and the target rectangle is mapped back into
  source pixels. These three definitions follow that description, over the real numbers;
  \<open>fit\<close> and \<open>drawClipped\<close> above follow the code.
\<close>

definition cover_scale :: "video_el \<Rightarrow> window \<Rightarrow> real" where
  "cover_scale video win =
     max (innerWidth win / videoWidth video) (innerHeight win / videoHeight video)"

definition cover_placement :: "video_el \<Rightarrow> window \<Rightarrow> placement" where
  "cover_placement video win =
     (let k = cover_scale video win
      in \<lparr>dw = k * videoWidth video,
          dh = k * videoHeight video,
          dx = (innerWidth win - k * videoWidth video) / 2,
          dy = (innerHeight win - k * videoHeight video) / 2\<rparr>)"

definition cover_source :: "video_el \<Rightarrow> placement \<Rightarrow> MaskState \<Rightarrow> drawImage_args" where
  "cover_source video p rect =
     \<lparr>sx = (x rect - dx p) * videoWidth video / dw p,
      sy = (y rect - dy p) * videoHeight video / dh p,
      sw = w rect * videoWidth video / dw p,
      sh = h rect * videoHeight video / dh p,
      dest_x = 0,
      dest_y = 0,
      dest_w = w rect,
      dest_h = h rect\<rparr>"

text \<open>
  The numbers the code computes are compared with these formulas up to the rounding.
  \<open>near v r scale\<close>: the number \<open>v\<close> is \<open>r\<close> up to \<open>scale / 2 ^ 48\<close>. A placement is
  near another when the widths and the horizontal offsets agree up to \<open>1 / 2 ^ 48\<close> of the
  width, and the heights and the vertical offsets up to \<open>1 / 2 ^ 48\<close> of the height. The
  arguments of a \<^verbatim>\<open>drawImage\<close> call are near others when every number of the source
  rectangle agrees up to \<open>1 / 2 ^ 48\<close> of its magnitude plus the length of the video on that
  axis, and the destinations are the same.
\<close>

definition near :: "real \<Rightarrow> real \<Rightarrow> real \<Rightarrow> bool" where
  "near v r scale \<longleftrightarrow> \<bar>v - r\<bar> \<le> scale / 2 ^ 48"

definition placement_near :: "placement \<Rightarrow> placement \<Rightarrow> bool" where
  "placement_near p q \<longleftrightarrow>
     near (dw p) (dw q) (dw q) \<and> near (dh p) (dh q) (dh q) \<and>
     near (dx p) (dx q) (dw q) \<and> near (dy p) (dy q) (dh q)"

definition source_near :: "video_el \<Rightarrow> drawImage_args \<Rightarrow> drawImage_args \<Rightarrow> bool" where
  "source_near video a r \<longleftrightarrow>
     near (sx a) (sx r) (\<bar>sx r\<bar> + videoWidth video) \<and>
     near (sy a) (sy r) (\<bar>sy r\<bar> + videoHeight video) \<and>
     near (sw a) (sw r) (\<bar>sw r\<bar> + videoWidth video) \<and>
     near (sh a) (sh r) (\<bar>sh r\<bar> + videoHeight video) \<and>
     dest_x a = dest_x r \<and> dest_y a = dest_y r \<and> dest_w a = dest_w r \<and> dest_h a = dest_h r"

section \<open>The component's state\<close>

subsection \<open>Arrays\<close>

text \<open>
  \<^verbatim>\<open>maskStates\<close> is a JavaScript array, and the code can leave it sparse: \<^verbatim>\<open>initMasks\<close>
  assigns \<^verbatim>\<open>newStates[index]\<close> only for the masks whose element is mounted. An element
  of the array is a hole, the value \<^verbatim>\<open>undefined\<close>, a \<^verbatim>\<open>MaskState\<close> object, or an object
  that has only \<^verbatim>\<open>x\<close> and \<^verbatim>\<open>y\<close>: the last is what
  \<^verbatim>\<open>{...newStates[index], x: ..., y: ...}\<close> builds when there is no object at the index.
\<close>

datatype entry = Hole | Undefined | Obj MaskState | ObjXY real real

text \<open>\<^verbatim>\<open>arr[i]\<close>: a hole and an index past the end both read as \<^verbatim>\<open>undefined\<close>.\<close>

definition array_get :: "entry list \<Rightarrow> nat \<Rightarrow> entry" where
  "array_get arr i =
     (if i < length arr then (case arr ! i of Hole \<Rightarrow> Undefined | e \<Rightarrow> e) else Undefined)"

text \<open>\<^verbatim>\<open>arr[i] = e\<close>: an index past the end grows the array, leaving holes in between.\<close>

definition array_set :: "entry list \<Rightarrow> nat \<Rightarrow> entry \<Rightarrow> entry list" where
  "array_set arr i e =
     (if i < length arr then arr[i := e] else arr @ replicate (i - length arr) Hole @ [e])"

text \<open>\<^verbatim>\<open>[...arr]\<close>: the copy has \<^verbatim>\<open>undefined\<close> where the array had a hole.\<close>

definition spread :: "entry list \<Rightarrow> entry list" where
  "spread arr = map (\<lambda>e. case e of Hole \<Rightarrow> Undefined | _ \<Rightarrow> e) arr"

text \<open>
  The \<^verbatim>\<open>x\<close> and \<^verbatim>\<open>y\<close> of an element, when it is an object; an object is what the tests
  \<^verbatim>\<open>maskStates[index]\<close> of the code take for true.
\<close>

fun position :: "entry \<Rightarrow> (real \<times> real) option" where
  "position (Obj m) = Some (x m, y m)"
| "position (ObjXY a b) = Some (a, b)"
| "position Hole = None"
| "position Undefined = None"

text \<open>
  The arrays of refs (\<^verbatim>\<open>maskRefs.current\<close>, \<^verbatim>\<open>canvasRefs.current\<close>,
  \<^verbatim>\<open>coordsRefs.current\<close>) hold an element or \<^verbatim>\<open>null\<close>; the code only tests what it reads
  from them, so \<^verbatim>\<open>null\<close>, a hole and an index past the end are one case, \<open>None\<close>.
\<close>

definition ref_at :: "'a option list \<Rightarrow> nat \<Rightarrow> 'a option" where
  "ref_at refs i = (if i < length refs then refs ! i else None)"

subsection \<open>The elements\<close>

text \<open>
  What \<^verbatim>\<open>getBoundingClientRect\<close> returns, and a mask element: the border box that the
  style sheet classes give it in the viewport while it has no inline style, and the four
  inline style properties the code writes. \<^verbatim>\<open>style.left = "0"\<close> is \<open>Some 0\<close>, and
  \<^verbatim>\<open>translate3d(a px, b px, 0)\<close> is \<open>Some (a, b)\<close>.
\<close>

record DOMRect =
  rect_left :: real
  rect_top :: real
  rect_width :: real
  rect_height :: real

record mask_el =
  class_box :: DOMRect
  style_left :: "real option"
  style_top :: "real option"
  style_transform :: "(real \<times> real) option"
  style_cursor :: "string option"

text \<open>
  The layout of a mask is the browser's, not the component's. The masks are absolutely
  positioned in the \<^verbatim>\<open>main\<close> element, so an inline \<^verbatim>\<open>left\<close> or \<^verbatim>\<open>top\<close> counts from the
  corner of \<^verbatim>\<open>main\<close>, whose place in the viewport is \<open>origin\<close>; a translation moves the
  box by its two lengths; the width and the height stay those of the classes.
\<close>

definition getBoundingClientRect :: "real \<times> real \<Rightarrow> mask_el \<Rightarrow> DOMRect" where
  "getBoundingClientRect origin mel =
     (let (tx, ty) = (case style_transform mel of None \<Rightarrow> (0, 0) | Some t \<Rightarrow> t)
      in \<lparr>rect_left =
            (case style_left mel of None \<Rightarrow> rect_left (class_box mel) | Some l \<Rightarrow> fst origin + l) + tx,
          rect_top =
            (case style_top mel of None \<Rightarrow> rect_top (class_box mel) | Some t \<Rightarrow> snd origin + t) + ty,
          rect_width = rect_width (class_box mel),
          rect_height = rect_height (class_box mel)\<rparr>)"

text \<open>
  A canvas: its two dimensions, whether \<^verbatim>\<open>getContext("2d")\<close> returns a context, and the
  calls made on that context since the bitmap was last reset. \<open>DrawImage None\<close> is a
  call of \<^verbatim>\<open>drawImage\<close> whose arguments the model does not give, a value in their
  computation not being a finite number.
\<close>

datatype canvas_op = ClearRect real real real real | DrawImage "drawImage_args option"

record canvas_el =
  width :: nat
  height :: nat
  context2d :: bool
  ops :: "canvas_op list"

text \<open>
  Assigning a number to \<^verbatim>\<open>canvas.width\<close> or \<^verbatim>\<open>canvas.height\<close> converts it to an
  \<^verbatim>\<open>unsigned long\<close> (truncation, then modulo \<open>2 ^ 32\<close>); a value above \<open>2 ^ 31 - 1\<close>
  sets the default of the attribute instead. The assignment resets the bitmap.
\<close>

definition to_dimension :: "nat \<Rightarrow> real \<Rightarrow> nat" where
  "to_dimension dflt v =
     (let n = nat ((if v < 0 then - \<lfloor>- v\<rfloor> else \<lfloor>v\<rfloor>) mod 2 ^ 32)
      in if n \<le> 2147483647 then n else dflt)"

text \<open>
  The text of an element. The two template literals of the code,
  \<^verbatim>\<open>X: ${a}px Y: ${b}px\<close>, are kept as the two numbers they print.
\<close>

datatype content = NoText | Text string | Coords real real

record hud_el =
  hud_text :: content
  hud_transform :: "(real \<times> real) option"

record MouseEvent =
  clientX :: real
  clientY :: real

subsection \<open>The state\<close>

text \<open>
  The three \<^verbatim>\<open>useState\<close> values, the refs with the elements they point to, the window,
  the corner of \<^verbatim>\<open>main\<close>, and the pending animation frames. A pending frame is a call of
  \<^verbatim>\<open>draw\<close>, and \<^verbatim>\<open>draw\<close> is a closure over the \<^verbatim>\<open>maskStates\<close> of the render that made
  it, so a frame is kept as that array.

  The \<^verbatim>\<open>mousemove\<close> listener of the document is a closure too: the effect of lines 130 to
  143 registers it, and it reads the \<^verbatim>\<open>isHovering\<close> of the render that ran the effect.
  React runs the effect again, and so replaces the listener, only after it has rendered
  with a changed \<^verbatim>\<open>isHovering\<close>; until then the listener reads the old value, kept here
  as \<open>listener_isHovering\<close>.

  An event handler reads the state of the last render and its \<^verbatim>\<open>set...\<close> calls take
  effect when it returns; the model runs the handlers one after the other, each on the
  state the one before left.
\<close>

record DraggingState =
  index :: "nat option"
  offsetX :: real
  offsetY :: real

record state =
  isHovering :: bool
  maskStates :: "entry list"
  draggingState :: DraggingState
  globalHudRef :: "hud_el option"
  videoRef :: "video_el option"
  maskRefs :: "mask_el option list"
  canvasRefs :: "canvas_el option list"
  coordsRefs :: "content option list"
  win :: window
  main_origin :: "real \<times> real"
  frames :: "entry list list"
  listener_isHovering :: bool

text \<open>
  The state of the first render: the initial values of the three \<^verbatim>\<open>useState\<close> calls,
  and the listener its effect registers.
\<close>

definition initial :: "state \<Rightarrow> bool" where
  "initial s \<longleftrightarrow>
     \<not> isHovering s \<and> maskStates s = [] \<and>
     draggingState s = \<lparr>index = None, offsetX = 0, offsetY = 0\<rparr> \<and>
     frames s = [] \<and> \<not> listener_isHovering s"

section \<open>The functions of the component\<close>

text \<open>\<^verbatim>\<open>updateCoords\<close>, lines 26 to 35.\<close>

definition updateCoords :: "entry list \<Rightarrow> content option list \<Rightarrow> nat \<Rightarrow> content option list" where
  "updateCoords ms labels i =
     (case (ref_at labels i, position (array_get ms i)) of
        (Some _, Some (a, b)) \<Rightarrow> labels[i := Some (Coords (Math_round a) (Math_round b))]
      | _ \<Rightarrow> labels)"

text \<open>
  \<^verbatim>\<open>initMasks\<close>, lines 78 to 96. \<open>measured\<close> is the object of lines 83 to 88,
  \<open>anchored\<close> the three assignments of lines 90 to 92, and \<open>initMasks_each\<close> the
  callback of the \<^verbatim>\<open>forEach\<close>, which runs on the indices in order.
\<close>

definition measured :: "DOMRect \<Rightarrow> MaskState" where
  "measured r = \<lparr>x = rect_left r, y = rect_top r, w = rect_width r, h = rect_height r\<rparr>"

definition anchored :: "DOMRect \<Rightarrow> mask_el \<Rightarrow> mask_el" where
  "anchored r mel =
     mel\<lparr>style_left := Some 0,
         style_top := Some 0,
         style_transform := Some (rect_left r, rect_top r)\<rparr>"

definition initMasks_each ::
  "real \<times> real \<Rightarrow> entry list \<times> mask_el option list \<Rightarrow> nat \<Rightarrow> entry list \<times> mask_el option list" where
  "initMasks_each origin acc i =
     (case acc of (newStates, refs) \<Rightarrow>
        (case ref_at refs i of
           None \<Rightarrow> acc
         | Some mel \<Rightarrow>
             let r = getBoundingClientRect origin mel
             in (array_set newStates i (Obj (measured r)), refs[i := Some (anchored r mel)])))"

definition initMasks :: "state \<Rightarrow> entry list \<times> mask_el option list" where
  "initMasks s =
     foldl (initMasks_each (main_origin s)) ([], maskRefs s) [0..<length (maskRefs s)]"

text \<open>
  How a run of statements ends: it returns, or it throws the \<^verbatim>\<open>TypeError\<close> of reading a
  property of \<^verbatim>\<open>undefined\<close>. A \<^verbatim>\<open>forEach\<close> visits the indices that are not holes, so
  the callbacks below meet \<^verbatim>\<open>undefined\<close> only where a spread has turned a hole into it.
\<close>

datatype completion = Returned | TypeError

text \<open>\<^verbatim>\<open>initCanvases\<close>, lines 98 to 106.\<close>

definition initCanvases_each ::
  "entry list \<Rightarrow> canvas_el option list \<times> completion \<Rightarrow> nat \<Rightarrow> canvas_el option list \<times> completion" where
  "initCanvases_each ms acc i =
     (case acc of (refs, c) \<Rightarrow>
        if c = TypeError \<or> ms ! i = Hole then acc
        else
          (case ref_at refs i of
             None \<Rightarrow> acc
           | Some canvas \<Rightarrow>
               (case ms ! i of
                  Obj m \<Rightarrow>
                    (refs[i := Some (canvas\<lparr>width := to_dimension 300 (w m),
                                            height := to_dimension 150 (h m),
                                            ops := []\<rparr>)], Returned)
                | ObjXY a b \<Rightarrow>
                    (refs[i := Some (canvas\<lparr>width := 0, height := 0, ops := []\<rparr>)], Returned)
                | _ \<Rightarrow> (refs, TypeError))))"

definition initCanvases ::
  "entry list \<Rightarrow> canvas_el option list \<Rightarrow> canvas_el option list \<times> completion" where
  "initCanvases ms refs = foldl (initCanvases_each ms) (refs, Returned) [0..<length ms]"

text \<open>
  \<^verbatim>\<open>draw\<close>, lines 108 to 127. \<open>paint\<close> is lines 119 and 120 on one canvas, for an
  element that is an object; on an object without \<^verbatim>\<open>w\<close> and \<^verbatim>\<open>h\<close> four arguments of
  \<^verbatim>\<open>drawImage\<close> are \<^verbatim>\<open>NaN\<close>. \<open>draw_each\<close> is the callback of the
  \<^verbatim>\<open>forEach\<close>: on \<^verbatim>\<open>undefined\<close> it has cleared the canvas when \<^verbatim>\<open>drawClipped\<close> throws.
\<close>

definition clear :: "canvas_el \<Rightarrow> canvas_el" where
  "clear canvas =
     canvas\<lparr>ops := ops canvas @ [ClearRect 0 0 (real (width canvas)) (real (height canvas))]\<rparr>"

definition paint :: "(real \<Rightarrow> real) \<Rightarrow> video_el \<Rightarrow> window \<Rightarrow> entry \<Rightarrow> canvas_el \<Rightarrow> canvas_el" where
  "paint fl v wn e canvas =
     (clear canvas)\<lparr>ops := ops (clear canvas) @
        [DrawImage (case e of Obj m \<Rightarrow> drawClipped fl v wn m | _ \<Rightarrow> None)]\<rparr>"

definition draw_each ::
  "(real \<Rightarrow> real) \<Rightarrow> video_el \<Rightarrow> window \<Rightarrow> entry list \<Rightarrow>
   canvas_el option list \<times> content option list \<times> completion \<Rightarrow> nat \<Rightarrow>
   canvas_el option list \<times> content option list \<times> completion" where
  "draw_each fl v wn ms acc i =
     (case acc of (refs, labels, c) \<Rightarrow>
        if c = TypeError \<or> ms ! i = Hole then acc
        else
          (case ref_at refs i of
             None \<Rightarrow> acc
           | Some canvas \<Rightarrow>
               if \<not> context2d canvas then acc
               else if ms ! i = Undefined then (refs[i := Some (clear canvas)], labels, TypeError)
               else (refs[i := Some (paint fl v wn (ms ! i) canvas)],
                     updateCoords ms labels i,
                     Returned)))"

text \<open>
  What a call of \<^verbatim>\<open>draw\<close> comes to: it returned at line 111 for want of a video, it
  reached line 126 and asked for the next frame, or a callback threw.
\<close>

datatype outcome = NoVideo | Scheduled | Threw

definition draw ::
  "(real \<Rightarrow> real) \<Rightarrow> entry list \<Rightarrow> video_el option \<Rightarrow> window \<Rightarrow>
   canvas_el option list \<Rightarrow> content option list \<Rightarrow>
   canvas_el option list \<times> content option list \<times> outcome" where
  "draw fl ms vref wn refs labels =
     (case vref of
        None \<Rightarrow> (refs, labels, NoVideo)
      | Some v \<Rightarrow>
          (case foldl (draw_each fl v wn ms) (refs, labels, Returned) [0..<length ms] of
             (refs', labels', c) \<Rightarrow>
               (refs', labels', if c = TypeError then Threw else Scheduled)))"

text \<open>
  The document's \<^verbatim>\<open>mousemove\<close> listener, lines 131 to 139. The source names it
  \<^verbatim>\<open>handleMouseMove\<close>, like the handler of the masks. Its \<^verbatim>\<open>isHovering\<close> is the one it
  closed over.
\<close>

definition handleMouseMove_document :: "(real \<Rightarrow> real) \<Rightarrow> state \<Rightarrow> MouseEvent \<Rightarrow> state" where
  "handleMouseMove_document fl s e =
     (let hud1 = (if \<not> listener_isHovering s
                  then map_option (\<lambda>el. el\<lparr>hud_text := Coords (clientX e) (clientY e)\<rparr>)
                         (globalHudRef s)
                  else globalHudRef s);
          hud2 = map_option
                   (\<lambda>el. el\<lparr>hud_transform := Some (fl (clientX e + 2), fl (clientY e + 2))\<rparr>) hud1
      in s\<lparr>globalHudRef := hud2\<rparr>)"

text \<open>
  \<^verbatim>\<open>handlePlaying\<close>, lines 152 to 156. The three functions it calls are those of the
  render that registered it: \<^verbatim>\<open>initCanvases\<close> and \<^verbatim>\<open>draw\<close> run on the \<^verbatim>\<open>maskStates\<close> of
  that render, not on the array that \<^verbatim>\<open>initMasks\<close> has just passed to
  \<^verbatim>\<open>setMaskStates\<close>. A throw ends the handler; what was written before it stays.
\<close>

definition handlePlaying :: "(real \<Rightarrow> real) \<Rightarrow> state \<Rightarrow> state" where
  "handlePlaying fl s =
     (case initMasks s of (newStates, mrefs) \<Rightarrow>
        (case initCanvases (maskStates s) (canvasRefs s) of
           (crefs, TypeError) \<Rightarrow>
             s\<lparr>maskStates := newStates, maskRefs := mrefs, canvasRefs := crefs\<rparr>
         | (crefs, Returned) \<Rightarrow>
             (case draw fl (maskStates s) (videoRef s) (win s) crefs (coordsRefs s) of
                (crefs', labels, out) \<Rightarrow>
                  s\<lparr>maskStates := newStates,
                    maskRefs := mrefs,
                    canvasRefs := crefs',
                    coordsRefs := labels,
                    frames := (if out = Scheduled then frames s @ [maskStates s]
                               else frames s)\<rparr>)))"

text \<open>
  The browser runs the \<open>k\<close>-th pending frame: \<^verbatim>\<open>draw\<close> again, on the array of its
  closure. The frame stays pending when \<^verbatim>\<open>draw\<close> asks for the next one.
\<close>

definition animationFrame :: "(real \<Rightarrow> real) \<Rightarrow> state \<Rightarrow> nat \<Rightarrow> state" where
  "animationFrame fl s k =
     (if k < length (frames s) then
        (case draw fl (frames s ! k) (videoRef s) (win s) (canvasRefs s) (coordsRefs s) of
           (crefs, labels, out) \<Rightarrow>
             s\<lparr>canvasRefs := crefs,
               coordsRefs := labels,
               frames := (if out = Scheduled then frames s
                          else take k (frames s) @ drop (Suc k) (frames s))\<rparr>)
      else s)"

text \<open>\<^verbatim>\<open>handleMouseDown\<close>, lines 172 to 184.\<close>

definition handleMouseDown :: "(real \<Rightarrow> real) \<Rightarrow> state \<Rightarrow> MouseEvent \<Rightarrow> nat \<Rightarrow> state" where
  "handleMouseDown fl s e i =
     (case (ref_at (maskRefs s) i, position (array_get (maskStates s) i)) of
        (Some mel, Some (mx, my)) \<Rightarrow>
          s\<lparr>draggingState :=
              \<lparr>index = Some i, offsetX = fl (clientX e - mx), offsetY = fl (clientY e - my)\<rparr>,
            maskRefs := (maskRefs s)[i := Some (mel\<lparr>style_cursor := Some ''grabbing''\<rparr>)]\<rparr>
      | _ \<Rightarrow> s)"

text \<open>\<^verbatim>\<open>handleMouseMove\<close>, lines 186 to 203.\<close>

definition handleMouseMove :: "(real \<Rightarrow> real) \<Rightarrow> state \<Rightarrow> MouseEvent \<Rightarrow> nat \<Rightarrow> state" where
  "handleMouseMove fl s e i =
     (if index (draggingState s) \<noteq> Some i then s
      else
        let newStates = spread (maskStates s);
            nx = fl (clientX e - offsetX (draggingState s));
            ny = fl (clientY e - offsetY (draggingState s));
            moved = (case array_get newStates i of
                       Obj m \<Rightarrow> Obj (m\<lparr>x := nx, y := ny\<rparr>)
                     | _ \<Rightarrow> ObjXY nx ny)
        in s\<lparr>maskStates := array_set newStates i moved,
             maskRefs :=
               (case ref_at (maskRefs s) i of
                  Some mel \<Rightarrow> (maskRefs s)[i := Some (mel\<lparr>style_transform := Some (nx, ny)\<rparr>)]
                | None \<Rightarrow> maskRefs s)\<rparr>)"

text \<open>\<^verbatim>\<open>handleMouseUp\<close>, lines 205 to 213.\<close>

definition handleMouseUp :: "state \<Rightarrow> state" where
  "handleMouseUp s =
     (case index (draggingState s) of
        None \<Rightarrow> s
      | Some i \<Rightarrow>
          s\<lparr>maskRefs :=
              (case ref_at (maskRefs s) i of
                 Some mel \<Rightarrow> (maskRefs s)[i := Some (mel\<lparr>style_cursor := Some ''grab''\<rparr>)]
               | None \<Rightarrow> maskRefs s),
            draggingState := \<lparr>index = None, offsetX = 0, offsetY = 0\<rparr>\<rparr>)"

text \<open>\<^verbatim>\<open>handleMouseEnter\<close> and \<^verbatim>\<open>handleMouseLeave\<close>, lines 215 to 227.\<close>

definition handleMouseEnter :: "state \<Rightarrow> state" where
  "handleMouseEnter s =
     s\<lparr>isHovering := True,
       globalHudRef := map_option (\<lambda>el. el\<lparr>hud_text := Text ''GRAB''\<rparr>) (globalHudRef s)\<rparr>"

definition handleMouseLeave :: "state \<Rightarrow> state" where
  "handleMouseLeave s =
     s\<lparr>isHovering := False,
       globalHudRef := map_option (\<lambda>el. el\<lparr>hud_text := Text ''HOVER''\<rparr>) (globalHudRef s)\<rparr>"

text \<open>
  The effect of lines 130 to 143, run again after a render: the listener of the document
  is replaced by one that closes over the \<^verbatim>\<open>isHovering\<close> of that render.
\<close>

definition hoverEffect :: "state \<Rightarrow> state" where
  "hoverEffect s = s\<lparr>listener_isHovering := isHovering s\<rparr>"

subsection \<open>Events\<close>

text \<open>
  The events the component listens to, each with the handler it runs, and the run of the
  hover effect. The listener of \<^verbatim>\<open>playing\<close> is on the video element, so without one the
  event does not occur.
\<close>

datatype event =
  Playing
| AnimationFrame nat
| DocumentMouseMove MouseEvent
| MouseDown MouseEvent nat
| MouseMove MouseEvent nat
| MouseUp
| MouseEnter
| MouseLeave
| HoverEffect

fun step :: "(real \<Rightarrow> real) \<Rightarrow> state \<Rightarrow> event \<Rightarrow> state" where
  "step fl s Playing = (case videoRef s of None \<Rightarrow> s | Some _ \<Rightarrow> handlePlaying fl s)"
| "step fl s (AnimationFrame k) = animationFrame fl s k"
| "step fl s (DocumentMouseMove e) = handleMouseMove_document fl s e"
| "step fl s (MouseDown e i) = handleMouseDown fl s e i"
| "step fl s (MouseMove e i) = handleMouseMove fl s e i"
| "step fl s MouseUp = handleMouseUp s"
| "step fl s MouseEnter = handleMouseEnter s"
| "step fl s MouseLeave = handleMouseLeave s"
| "step fl s HoverEffect = hoverEffect s"

definition run :: "(real \<Rightarrow> real) \<Rightarrow> state \<Rightarrow> event list \<Rightarrow> state" where
  "run fl s evs = foldl (step fl) s evs"

inductive reachable :: "(real \<Rightarrow> real) \<Rightarrow> state \<Rightarrow> bool" for fl :: "real \<Rightarrow> real" where
  first_render: "initial s \<Longrightarrow> reachable fl s"
| after_event: "reachable fl s \<Longrightarrow> reachable fl (step fl s ev)"

section \<open>Notions used in the properties\<close>

text \<open>
  The unit of work of \<^verbatim>\<open>draw\<close> for the mask \<open>i\<close> has all it needs: an element of
  \<^verbatim>\<open>maskStates\<close> to visit, a canvas, and a 2D context.
\<close>

definition drawable :: "entry list \<Rightarrow> canvas_el option list \<Rightarrow> nat \<Rightarrow> bool" where
  "drawable ms refs i \<longleftrightarrow>
     i < length ms \<and> ms ! i \<noteq> Hole \<and>
     (case ref_at refs i of Some canvas \<Rightarrow> context2d canvas | None \<Rightarrow> False)"

text \<open>The text \<^verbatim>\<open>updateCoords\<close> writes for an element that is an object.\<close>

definition coords_text :: "entry \<Rightarrow> content option" where
  "coords_text e = map_option (\<lambda>(a, b). Coords (Math_round a) (Math_round b)) (position e)"

text \<open>
  The array \<^verbatim>\<open>initMasks\<close> builds from the first \<open>n\<close> refs, as a function of the
  rectangles measured alone.
\<close>

definition measure_all :: "real \<times> real \<Rightarrow> mask_el option list \<Rightarrow> nat \<Rightarrow> entry list" where
  "measure_all origin refs n =
     foldl (\<lambda>ns j. case ref_at refs j of
                     None \<Rightarrow> ns
                   | Some mel \<Rightarrow> array_set ns j (Obj (measured (getBoundingClientRect origin mel))))
       [] [0..<n]"

text \<open>The \<^verbatim>\<open>w\<close> and \<^verbatim>\<open>h\<close> of an element that is a \<^verbatim>\<open>MaskState\<close>.\<close>

fun size_of :: "entry \<Rightarrow> (real \<times> real) option" where
  "size_of (Obj m) = Some (w m, h m)"
| "size_of (ObjXY a b) = None"
| "size_of Hole = None"
| "size_of Undefined = None"

text \<open>
  The events that end a drag or start another: a pointer-up, and a pointer-down. A drag
  is active through the events that are neither.
\<close>

fun ends_drag :: "event \<Rightarrow> bool" where
  "ends_drag MouseUp = True"
| "ends_drag (MouseDown e i) = True"
| "ends_drag Playing = False"
| "ends_drag (AnimationFrame k) = False"
| "ends_drag (DocumentMouseMove e) = False"
| "ends_drag (MouseMove e i) = False"
| "ends_drag MouseEnter = False"
| "ends_drag MouseLeave = False"
| "ends_drag HoverEffect = False"

text \<open>The mask \<open>i\<close> is the one being dragged.\<close>

definition dragging :: "state \<Rightarrow> nat \<Rightarrow> bool" where
  "dragging s i \<longleftrightarrow> index (draggingState s) = Some i"

text \<open>
  An invariant of the reachable states: the index of \<^verbatim>\<open>draggingState\<close>, when there is
  one, is that of a mounted mask whose \<^verbatim>\<open>maskStates\<close> element is an object.
\<close>

definition drag_target :: "state \<Rightarrow> bool" where
  "drag_target s \<longleftrightarrow>
     (case index (draggingState s) of
        None \<Rightarrow> True
      | Some i \<Rightarrow> ref_at (maskRefs s) i \<noteq> None \<and> position (array_get (maskStates s) i) \<noteq> None)"

text \<open>
  Every element of an array is an object; every mask of a state is mounted; and the
  arrays a state holds, in \<^verbatim>\<open>maskStates\<close> and in the closures of its pending frames,
  have only objects.
\<close>

definition all_objects :: "entry list \<Rightarrow> bool" where
  "all_objects ms \<longleftrightarrow> list_all (\<lambda>e. position e \<noteq> None) ms"

definition all_mounted :: "state \<Rightarrow> bool" where
  "all_mounted s \<longleftrightarrow> None \<notin> set (maskRefs s)"

definition objects_only :: "state \<Rightarrow> bool" where
  "objects_only s \<longleftrightarrow> all_objects (maskStates s) \<and> list_all all_objects (frames s)"

section \<open>An example\<close>

text \<open>
  A page with three masks as the first render leaves it: a 1920 by 1080 video in a 1280
  by 720 window, \<^verbatim>\<open>main\<close> in the corner of the viewport, the second mask without a
  canvas and the third without a label.
\<close>

definition mask_at :: "real \<Rightarrow> real \<Rightarrow> real \<Rightarrow> real \<Rightarrow> mask_el" where
  "mask_at l t wd ht =
     \<lparr>class_box = \<lparr>rect_left = l, rect_top = t, rect_width = wd, rect_height = ht\<rparr>,
      style_left = None, style_top = None, style_transform = None, style_cursor = None\<rparr>"

definition blank_canvas :: canvas_el where
  "blank_canvas = \<lparr>width = 300, height = 150, context2d = True, ops = []\<rparr>"

definition mounted :: state where
  "mounted =
     \<lparr>isHovering = False,
      maskStates = [],
      draggingState = \<lparr>index = None, offsetX = 0, offsetY = 0\<rparr>,
      globalHudRef = Some \<lparr>hud_text = NoText, hud_transform = None\<rparr>,
      videoRef = Some \<lparr>videoWidth = 1920, videoHeight = 1080\<rparr>,
      maskRefs = [Some (mask_at 100 100 200 100), Some (mask_at 192 500 448 144),
                  Some (mask_at 40 45 448 144)],
      canvasRefs = [Some blank_canvas, None, Some blank_canvas],
      coordsRefs = [Some NoText, Some NoText, None],
      win = \<lparr>innerWidth = 1280, innerHeight = 720\<rparr>,
      main_origin = (0, 0),
      frames = [],
      listener_isHovering = False\<rparr>"

section \<open>Evaluating the binary64 rounding\<close>

lemma binary64_eval:
  assumes "2 powi k \<le> \<bar>v\<bar>" and "\<bar>v\<bar> < 2 powi (k + 1)" and "- 1022 \<le> k"
  shows "binary64 v = of_int (round_half_even (v / 2 powi (k - 52))) * 2 powi (k - 52)"
proof -
  have "(0::real) < 2 powi k"
    by (rule zero_less_power_int) simp
  then have pos: "0 < \<bar>v\<bar>"
    using assms(1) by linarith
  have up: "(2::real) powr real_of_int (k + 1) = 2 powi (k + 1)"
    by (rule powr_real_of_int') simp_all
  have low: "(2::real) powr real_of_int k = 2 powi k"
    by (rule powr_real_of_int') simp_all
  have "\<lfloor>log 2 \<bar>v\<bar>\<rfloor> = k"
    using assms(1,2) pos up low by (simp add: floor_log_eq_powr_iff)
  moreover have "max (k - 52) (- 1074) = k - 52"
    using assms(3) by simp
  ultimately show ?thesis
    using pos by (simp add: binary64_def Let_def)
qed

lemma binary64_aspect: "binary64 (16 / 9) = 2001599834386887 / 1125899906842624"
  by (subst binary64_eval [where k = 0])
     (simp_all add: round_half_even_def power_int_diff power_int_minus)

lemma binary64_height: "binary64 (1441151880758558720 / 2001599834386887) = 720"
  by (subst binary64_eval [where k = 9])
     (simp_all add: round_half_even_def power_int_diff power_int_minus)

lemma binary64_3_2: "binary64 (3 / 2) = 3 / 2"
  by (subst binary64_eval [where k = 0])
     (simp_all add: round_half_even_def power_int_diff power_int_minus)

lemma binary64_100: "binary64 100 = 100"
  by (subst binary64_eval [where k = 6])
     (simp_all add: round_half_even_def power_int_diff power_int_minus)

lemma binary64_150: "binary64 150 = 150"
  by (subst binary64_eval [where k = 7])
     (simp_all add: round_half_even_def power_int_diff power_int_minus)

lemma binary64_300: "binary64 300 = 300"
  by (subst binary64_eval [where k = 8])
     (simp_all add: round_half_even_def power_int_diff power_int_minus)

lemma binary64_0: "binary64 0 = 0"
  by (simp add: binary64_def)

section \<open>The error of the binary64 rounding\<close>

text \<open>
  One rounding moves a number by at most half the spacing of the binary64 numbers around
  it: by at most \<open>unit_roundoff\<close> times its magnitude where the numbers are normal, and
  by at most \<open>eta\<close> more in general.
\<close>

lemma round_half_even_error: "\<bar>of_int (round_half_even t) - t\<bar> \<le> 1 / 2"
proof -
  have "of_int \<lfloor>t\<rfloor> \<le> t" and "t < of_int \<lfloor>t\<rfloor> + 1"
    by linarith+
  then show ?thesis
    by (auto simp add: round_half_even_def Let_def)
qed

lemma binary64_spacing:
  assumes "v \<noteq> 0"
  shows "\<bar>binary64 v - v\<bar> \<le> 2 powi (max (\<lfloor>log 2 \<bar>v\<bar>\<rfloor> - 52) (- 1074)) / 2"
proof -
  define j where "j = max (\<lfloor>log 2 \<bar>v\<bar>\<rfloor> - 52) (- 1074)"
  have pos: "(0::real) < 2 powi j"
    by (rule zero_less_power_int) simp
  have "binary64 v - v = (of_int (round_half_even (v / 2 powi j)) - v / 2 powi j) * 2 powi j"
    using assms pos by (simp add: binary64_def Let_def j_def [symmetric] field_simps)
  then have "\<bar>binary64 v - v\<bar> = \<bar>of_int (round_half_even (v / 2 powi j)) - v / 2 powi j\<bar> * 2 powi j"
    using pos by (simp add: abs_mult)
  also have "\<dots> \<le> 1 / 2 * 2 powi j"
    using pos round_half_even_error [of "v / 2 powi j"] by (intro mult_right_mono) simp_all
  finally show ?thesis
    by (simp add: j_def)
qed

lemma floor_log2_bounds:
  assumes "v \<noteq> 0"
  shows "2 powi \<lfloor>log 2 \<bar>v\<bar>\<rfloor> \<le> \<bar>v\<bar>" and "\<bar>v\<bar> < 2 powi (\<lfloor>log 2 \<bar>v\<bar>\<rfloor> + 1)"
proof -
  have pos: "0 < \<bar>v\<bar>" using assms by simp
  define k where "k = \<lfloor>log 2 \<bar>v\<bar>\<rfloor>"
  have up: "(2::real) powr real_of_int (k + 1) = 2 powi (k + 1)"
    by (rule powr_real_of_int') simp_all
  have low: "(2::real) powr real_of_int k = 2 powi k"
    by (rule powr_real_of_int') simp_all
  have "2 powr real_of_int k \<le> \<bar>v\<bar> \<and> \<bar>v\<bar> < 2 powr (real_of_int k + 1)"
    using floor_log_eq_powr_iff [OF pos, of 2 k] by (simp add: k_def)
  then show "2 powi \<lfloor>log 2 \<bar>v\<bar>\<rfloor> \<le> \<bar>v\<bar>" and "\<bar>v\<bar> < 2 powi (\<lfloor>log 2 \<bar>v\<bar>\<rfloor> + 1)"
    using up low by (simp_all add: k_def [symmetric])
qed

lemma binary64_relative:
  assumes "2 powi (- 1022) \<le> \<bar>v\<bar>"
  shows "\<bar>binary64 v - v\<bar> \<le> unit_roundoff * \<bar>v\<bar>"
proof -
  have "(0::real) < 2 powi (- 1022)"
    by (rule zero_less_power_int) simp
  then have nz: "v \<noteq> 0"
    using assms by auto
  define k where "k = \<lfloor>log 2 \<bar>v\<bar>\<rfloor>"
  have lo: "2 powi k \<le> \<bar>v\<bar>" and hi: "\<bar>v\<bar> < 2 powi (k + 1)"
    using floor_log2_bounds [OF nz] by (simp_all add: k_def)
  have "(2::real) powi (- 1022) < 2 powi (k + 1)"
    using assms hi by linarith
  then have "- 1022 < k + 1"
    using power_int_increasing [of "k + 1" "- 1022" "2::real"] by (cases "k + 1 \<le> - 1022") auto
  then have j: "max (k - 52) (- 1074) = k - 52"
    by simp
  have "\<bar>binary64 v - v\<bar> \<le> 2 powi (k - 52) / 2"
    using binary64_spacing [OF nz] j by (simp add: k_def)
  also have "\<dots> = unit_roundoff * 2 powi k"
    by (simp add: unit_roundoff_def power_int_diff)
  also have "\<dots> \<le> unit_roundoff * \<bar>v\<bar>"
    using lo by (simp add: unit_roundoff_def)
  finally show ?thesis .
qed

lemma binary64_absolute: "\<bar>binary64 v - v\<bar> \<le> unit_roundoff * \<bar>v\<bar> + 1 / 2 ^ 1075"
proof (cases "2 powi (- 1022) \<le> \<bar>v\<bar>")
  case True
  then show ?thesis
    using binary64_relative [OF True] by simp
next
  case False
  show ?thesis
  proof (cases "v = 0")
    case True
    then show ?thesis by (simp add: binary64_def)
  next
    case nz: False
    define k where "k = \<lfloor>log 2 \<bar>v\<bar>\<rfloor>"
    have "2 powi k \<le> \<bar>v\<bar>"
      using floor_log2_bounds [OF nz] by (simp add: k_def)
    then have "(2::real) powi k < 2 powi (- 1022)"
      using False by linarith
    then have "k < - 1022"
      using power_int_increasing [of "- 1022" k "2::real"] by (cases "- 1022 \<le> k") auto
    then have j: "max (k - 52) (- 1074) = - 1074"
      by simp
    have "\<bar>binary64 v - v\<bar> \<le> 2 powi (- 1074) / 2"
      using binary64_spacing [OF nz] j by (simp add: k_def)
    also have "\<dots> = 1 / 2 ^ 1075"
      by (simp add: power_int_minus)
    finally have "\<bar>binary64 v - v\<bar> \<le> 1 / 2 ^ 1075" .
    moreover have "0 \<le> unit_roundoff * \<bar>v\<bar>"
      by (simp add: unit_roundoff_def)
    ultimately show ?thesis
      by linarith
  qed
qed

text \<open>
  Numbers equal up to \<open>n\<close> roundings: the relation is kept by products, quotients and
  one more rounding, which is how the error of a chain of operations is counted.
\<close>

lemma roundoff_range: "0 < unit_roundoff" "unit_roundoff < 1" "0 < 1 - unit_roundoff" "1 - unit_roundoff \<le> 1"
  by (simp_all add: unit_roundoff_def)

lemma shrink_pos: "0 < (1 - unit_roundoff) ^ n"
  using roundoff_range by simp

lemma shrink_le_one: "(1 - unit_roundoff) ^ n \<le> 1"
  using roundoff_range by (simp add: power_le_one)

lemma shrink_add: "(1 - unit_roundoff) ^ (n + m) = (1 - unit_roundoff) ^ n * (1 - unit_roundoff) ^ m"
  by (rule power_add)

lemma close_refl: "0 < p \<Longrightarrow> close 0 p p"
  by (simp add: close_def)

lemma close_sym: "close n p q \<Longrightarrow> close n q p"
  by (simp add: close_def)

lemma close_mono:
  assumes "close n p q" and "n \<le> m"
  shows "close m p q"
proof -
  have "(1 - unit_roundoff) ^ m \<le> (1 - unit_roundoff) ^ n"
    using assms(2) roundoff_range by (intro power_decreasing) simp_all
  then have "q * (1 - unit_roundoff) ^ m \<le> q * (1 - unit_roundoff) ^ n"
    and "p * (1 - unit_roundoff) ^ m \<le> p * (1 - unit_roundoff) ^ n"
    using assms(1) by (simp_all add: close_def mult_left_mono)
  then show ?thesis
    using assms(1) unfolding close_def by linarith
qed

lemma close_trans:
  assumes "close n p q" and "close m q r"
  shows "close (n + m) p r"
proof -
  let ?c = "1 - unit_roundoff"
  have "r * ?c ^ (n + m) = (r * ?c ^ m) * ?c ^ n"
    by (simp add: power_add)
  also have "\<dots> \<le> q * ?c ^ n"
    using assms(2) shrink_pos [of n] by (intro mult_right_mono) (simp_all add: close_def)
  also have "\<dots> \<le> p"
    using assms(1) by (simp add: close_def)
  finally have one: "r * ?c ^ (n + m) \<le> p" .
  have "p * ?c ^ (n + m) = (p * ?c ^ n) * ?c ^ m"
    by (simp add: power_add)
  also have "\<dots> \<le> q * ?c ^ m"
    using assms(1) shrink_pos [of m] by (intro mult_right_mono) (simp_all add: close_def)
  also have "\<dots> \<le> r"
    using assms(2) by (simp add: close_def)
  finally have "p * ?c ^ (n + m) \<le> r" .
  with one show ?thesis
    using assms by (simp add: close_def)
qed

lemma close_mult:
  assumes "close n p q" and "close m p' q'"
  shows "close (n + m) (p * p') (q * q')"
proof -
  let ?c = "1 - unit_roundoff"
  have "(q * ?c ^ n) * (q' * ?c ^ m) \<le> p * p'"
    using assms shrink_pos [of n] shrink_pos [of m]
    by (intro mult_mono) (simp_all add: close_def)
  moreover have "(p * ?c ^ n) * (p' * ?c ^ m) \<le> q * q'"
    using assms shrink_pos [of n] shrink_pos [of m]
    by (intro mult_mono) (simp_all add: close_def)
  ultimately show ?thesis
    using assms by (simp add: close_def power_add mult_ac)
qed

lemma close_inverse:
  assumes "close n p q"
  shows "close n (1 / p) (1 / q)"
  using assms shrink_pos [of n]
  by (simp add: close_def field_simps)

lemma close_divide:
  assumes "close n p q" and "close m p' q'"
  shows "close (n + m) (p / p') (q / q')"
  using close_mult [OF assms(1) close_inverse [OF assms(2)]] by simp

lemma close_scale:
  assumes "close n p q" and "0 < r"
  shows "close n (r * p) (r * q)"
  using close_mult [OF close_refl [OF assms(2)] assms(1)] by simp

lemma shrink_Bernoulli: "1 - real n * unit_roundoff \<le> (1 - unit_roundoff) ^ n"
  using Bernoulli_inequality [of "- unit_roundoff" n] roundoff_range by simp

lemma close_lower:
  assumes "close n p q" and "n \<le> 8"
  shows "q / 2 \<le> p"
proof -
  have "(1::real) / 2 \<le> 1 - real (8::nat) * unit_roundoff"
    by (simp add: unit_roundoff_def)
  also have "\<dots> \<le> (1 - unit_roundoff) ^ 8"
    by (rule shrink_Bernoulli)
  also have "(1 - unit_roundoff) ^ 8 \<le> (1 - unit_roundoff) ^ n"
    using assms(2) roundoff_range by (intro power_decreasing) simp_all
  finally have half: "(1::real) / 2 \<le> (1 - unit_roundoff) ^ n" .
  have "0 \<le> q"
    using assms(1) by (simp add: close_def)
  then have "q * (1 / 2) \<le> q * (1 - unit_roundoff) ^ n"
    using half by (rule mult_left_mono [rotated])
  moreover have "q * (1 - unit_roundoff) ^ n \<le> p"
    using assms(1) by (simp add: close_def)
  ultimately show ?thesis
    by linarith
qed

lemma close_binary64:
  assumes "close n p q" and "n \<le> 8" and "1 / 2 ^ 1021 \<le> q"
  shows "close (Suc n) (binary64 p) q"
proof -
  have p: "0 < p" and half: "q / 2 \<le> p"
    using assms(1,2) close_lower by (simp_all add: close_def)
  have "(2::real) powi (- 1022) = 1 / 2 ^ 1022"
    by (simp add: power_int_minus field_simps)
  then have "2 powi (- 1022) \<le> \<bar>p\<bar>"
    using half assms(3) p by simp
  then have err: "\<bar>binary64 p - p\<bar> \<le> unit_roundoff * p"
    using binary64_relative [of p] p by simp
  then have lo: "p * (1 - unit_roundoff) \<le> binary64 p" and hi: "binary64 p \<le> p * (1 + unit_roundoff)"
    by (simp_all add: abs_le_iff algebra_simps)
  have "0 < p * (1 - unit_roundoff)"
    using p roundoff_range by (intro mult_pos_pos) simp_all
  then have pos: "0 < binary64 p"
    using lo by linarith
  have "(1 + unit_roundoff) * (1 - unit_roundoff) \<le> 1"
    by (simp add: unit_roundoff_def)
  then have "p * ((1 + unit_roundoff) * (1 - unit_roundoff)) \<le> p * 1"
    using p by (intro mult_left_mono) simp_all
  moreover have "binary64 p * (1 - unit_roundoff) \<le> (p * (1 + unit_roundoff)) * (1 - unit_roundoff)"
    using hi roundoff_range by (intro mult_right_mono) simp_all
  moreover have "(p * (1 + unit_roundoff)) * (1 - unit_roundoff) =
                   p * ((1 + unit_roundoff) * (1 - unit_roundoff))"
    by (simp only: mult.assoc)
  ultimately have "binary64 p * (1 - unit_roundoff) \<le> p"
    by linarith
  then have "close 1 (binary64 p) p"
    using lo pos p by (simp add: close_def)
  from close_trans [OF this assms(1)] show ?thesis
    by simp
qed

lemma close_abs4:
  assumes "close 4 p q"
  shows "\<bar>p - q\<bar> \<le> 5 * unit_roundoff * q"
proof -
  let ?u = unit_roundoff
  have q: "0 < q" and p: "0 < p" and lo: "q * (1 - ?u) ^ 4 \<le> p" and hi: "p * (1 - ?u) ^ 4 \<le> q"
    using assms by (simp_all add: close_def)
  have b: "1 - real (4::nat) * ?u \<le> (1 - ?u) ^ 4"
    by (rule shrink_Bernoulli)
  have "q * (1 - 4 * ?u) \<le> q * (1 - ?u) ^ 4"
    using q b by (intro mult_left_mono) simp_all
  then have low: "q - p \<le> 4 * ?u * q"
    using lo by (simp add: algebra_simps)
  have "p * (1 - 4 * ?u) \<le> p * (1 - ?u) ^ 4"
    using p b by (intro mult_left_mono) simp_all
  then have ph: "p * (1 - 4 * ?u) \<le> q"
    using hi by linarith
  have "1 \<le> (1 + 5 * ?u) * (1 - 4 * ?u)"
    by (simp add: unit_roundoff_def)
  then have "q * 1 \<le> q * ((1 + 5 * ?u) * (1 - 4 * ?u))"
    using q by (intro mult_left_mono) simp_all
  then have "p * (1 - 4 * ?u) \<le> (q * (1 + 5 * ?u)) * (1 - 4 * ?u)"
    using ph by (simp add: mult_ac)
  moreover have "0 < 1 - 4 * ?u"
    by (simp add: unit_roundoff_def)
  ultimately have "p \<le> q * (1 + 5 * ?u)"
    by (simp only: mult_le_cancel_right_pos)
  then show ?thesis
    using low by (simp add: abs_le_iff algebra_simps)
qed

lemma close_abs5:
  assumes "close 5 p q"
  shows "\<bar>p - q\<bar> \<le> 6 * unit_roundoff * q"
proof -
  let ?u = unit_roundoff
  have q: "0 < q" and p: "0 < p" and lo: "q * (1 - ?u) ^ 5 \<le> p" and hi: "p * (1 - ?u) ^ 5 \<le> q"
    using assms by (simp_all add: close_def)
  have b: "1 - real (5::nat) * ?u \<le> (1 - ?u) ^ 5"
    by (rule shrink_Bernoulli)
  have "q * (1 - 5 * ?u) \<le> q * (1 - ?u) ^ 5"
    using q b by (intro mult_left_mono) simp_all
  then have low: "q - p \<le> 5 * ?u * q"
    using lo by (simp add: algebra_simps)
  have "p * (1 - 5 * ?u) \<le> p * (1 - ?u) ^ 5"
    using p b by (intro mult_left_mono) simp_all
  then have ph: "p * (1 - 5 * ?u) \<le> q"
    using hi by linarith
  have "1 \<le> (1 + 6 * ?u) * (1 - 5 * ?u)"
    by (simp add: unit_roundoff_def)
  then have "q * 1 \<le> q * ((1 + 6 * ?u) * (1 - 5 * ?u))"
    using q by (intro mult_left_mono) simp_all
  then have "p * (1 - 5 * ?u) \<le> (q * (1 + 6 * ?u)) * (1 - 5 * ?u)"
    using ph by (simp add: mult_ac)
  moreover have "0 < 1 - 5 * ?u"
    by (simp add: unit_roundoff_def)
  ultimately have "p \<le> q * (1 + 6 * ?u)"
    by (simp only: mult_le_cancel_right_pos)
  then show ?thesis
    using low by (simp add: abs_le_iff algebra_simps)
qed

text \<open>The comparison of the two rounded ratios, read back on the ratios themselves.\<close>

lemma compare_greater:
  assumes "close 1 va a" and "close 1 wa b" and "wa < va"
  shows "close 2 a (max a b)"
proof (cases "b \<le> a")
  case True
  then have "max a b = a" by simp
  then show ?thesis
    using assms(1) close_refl [of a] close_mono [of 0 a a 2] by (simp add: close_def)
next
  case False
  let ?c = "1 - unit_roundoff"
  have a: "0 < a" and b: "0 < b"
    using assms(1,2) by (simp_all add: close_def)
  have c: "0 < ?c" "?c \<le> 1"
    using roundoff_range by simp_all
  have "b * ?c \<le> wa" and "va * ?c \<le> a"
    using assms(1,2) by (simp_all add: close_def)
  then have "(b * ?c) * ?c \<le> va * ?c"
    using assms(3) c by (intro mult_right_mono) simp_all
  then have one: "b * ?c ^ 2 \<le> a"
    using \<open>va * ?c \<le> a\<close> by (simp add: power2_eq_square mult_ac)
  have "a * ?c ^ 2 \<le> a * 1"
    using a shrink_le_one [of 2] by (intro mult_left_mono) simp_all
  then have two: "a * ?c ^ 2 \<le> b"
    using False by simp
  from False have "max a b = b" by simp
  then show ?thesis
    using one two a b by (simp add: close_def)
qed

lemma compare_not_greater:
  assumes "close 1 va a" and "close 1 wa b" and "\<not> wa < va"
  shows "close 2 b (max a b)"
proof (cases "a \<le> b")
  case True
  then have "max a b = b" by simp
  then show ?thesis
    using assms(2) close_refl [of b] close_mono [of 0 b b 2] by (simp add: close_def)
next
  case False
  let ?c = "1 - unit_roundoff"
  have a: "0 < a" and b: "0 < b"
    using assms(1,2) by (simp_all add: close_def)
  have c: "0 < ?c" "?c \<le> 1"
    using roundoff_range by simp_all
  have "a * ?c \<le> va" and "wa * ?c \<le> b"
    using assms(1,2) by (simp_all add: close_def)
  then have "(a * ?c) * ?c \<le> wa * ?c"
    using assms(3) c by (intro mult_right_mono) simp_all
  then have one: "a * ?c ^ 2 \<le> b"
    using \<open>wa * ?c \<le> b\<close> by (simp add: power2_eq_square mult_ac)
  have "b * ?c ^ 2 \<le> b * 1"
    using b shrink_le_one [of 2] by (intro mult_left_mono) simp_all
  then have two: "b * ?c ^ 2 \<le> a"
    using False by simp
  from False have "max a b = a" by simp
  then show ?thesis
    using one two a b by (simp add: close_def)
qed

lemma ratio_range:
  fixes p q :: real
  assumes "1 \<le> p" and "p \<le> 2 ^ 40" and "1 \<le> q" and "q \<le> 2 ^ 40"
  shows "1 / 2 ^ 40 \<le> p / q" and "p / q \<le> 2 ^ 40" and "0 < p / q"
proof -
  have "1 / 2 ^ 40 \<le> 1 / q"
    using assms(3,4) by (simp add: field_simps)
  also have "1 / q \<le> p / q"
    using assms(1,3) by (simp add: field_simps)
  finally show "1 / 2 ^ 40 \<le> p / q" .
  have "p / q \<le> p / 1"
    using assms(1,3) by (intro divide_left_mono) simp_all
  then show "p / q \<le> 2 ^ 40"
    using assms(2) by simp
  show "0 < p / q"
    using assms(1,3) by simp
qed

lemma tiny_le: "(1::real) / 2 ^ 1021 \<le> 1 / 2 ^ 40" "(1::real) / 2 ^ 1021 \<le> 1 / 2 ^ 80"
  "(1::real) / 2 ^ 1021 \<le> 1 / 2 ^ 120"
  by simp_all

lemma close_round:
  assumes "close n p q" and "1 / 2 ^ 1021 \<le> q" and "m = Suc n" and "n \<le> 8"
  shows "close m (binary64 p) q"
  using close_binary64 [OF assms(1) assms(4) assms(2)] assms(3) by simp

lemma aspect_rounded:
  fixes p q :: real
  assumes "1 \<le> p" and "p \<le> 2 ^ 40" and "1 \<le> q" and "q \<le> 2 ^ 40"
  shows "close 1 (binary64 (p / q)) (p / q)"
proof -
  have "close 0 (p / q) (p / q)"
    using ratio_range(3) [OF assms] by (rule close_refl)
  moreover have "1 / 2 ^ 1021 \<le> p / q"
    using ratio_range(1) [OF assms] tiny_le(1) by linarith
  ultimately show ?thesis
    by (rule close_round) simp_all
qed

lemma placement_wide:
  fixes a b va wa IH :: real
  assumes va: "close 1 va a" and wa: "close 1 wa b" and gt: "wa < va"
    and IH: "1 \<le> IH" and a_low: "1 / 2 ^ 40 \<le> a"
  shows "close 4 (binary64 (IH * va)) (IH * max a b)"
    and "close 4 IH (IH * max a b / a)"
proof -
  have am: "close 2 a (max a b)"
    using va wa gt by (rule compare_greater)
  have IH0: "0 < IH"
    using IH by simp
  have a: "0 < a"
    using va by (simp add: close_def)
  have "1 * (1 / 2 ^ 40) \<le> IH * a"
    using IH a_low by (intro mult_mono) simp_all
  then have low: "1 / 2 ^ 1021 \<le> IH * a"
    using tiny_le(1) by linarith
  have "close 1 (IH * va) (IH * a)"
    using va IH0 by (rule close_scale)
  then have "close 2 (binary64 (IH * va)) (IH * a)"
    using low by (rule close_round) simp_all
  moreover have "close 2 (IH * a) (IH * max a b)"
    using am IH0 by (rule close_scale)
  ultimately have "close (2 + 2) (binary64 (IH * va)) (IH * max a b)"
    by (rule close_trans)
  then show "close 4 (binary64 (IH * va)) (IH * max a b)"
    by simp
  have "close (2 + 0) (a / a) (max a b / a)"
    using am close_refl [OF a] by (rule close_divide)
  then have "close 2 1 (max a b / a)"
    using a by simp
  then have "close 2 (IH * 1) (IH * (max a b / a))"
    using IH0 by (rule close_scale)
  then have "close 2 IH (IH * max a b / a)"
    by simp
  then show "close 4 IH (IH * max a b / a)"
    by (rule close_mono) simp
qed

lemma placement_tall:
  fixes a b va wa IH IW :: real
  assumes va: "close 1 va a" and wa: "close 1 wa b" and le: "\<not> wa < va"
    and IW: "1 \<le> IW" and IH: "0 < IH" and eq: "IH * b = IW" and a_high: "a \<le> 2 ^ 40"
  shows "close 4 IW (IH * max a b)"
    and "close 4 (binary64 (IW / va)) (IH * max a b / a)"
proof -
  have bm: "close 2 b (max a b)"
    using va wa le by (rule compare_not_greater)
  have IW0: "0 < IW"
    using IW by simp
  have a: "0 < a"
    using va by (simp add: close_def)
  have wide: "close 2 IW (IH * max a b)"
    using close_scale [OF bm IH] eq by simp
  then show "close 4 IW (IH * max a b)"
    by (rule close_mono) simp
  have "1 / 2 ^ 40 \<le> 1 / a"
    using a a_high by (intro frac_le) simp_all
  also have "1 / a \<le> IW / a"
    using IW a by (intro divide_right_mono) simp_all
  finally have low: "1 / 2 ^ 1021 \<le> IW / a"
    using tiny_le(1) by linarith
  have "close (0 + 1) (IW / va) (IW / a)"
    using close_refl [OF IW0] va by (rule close_divide)
  then have "close 1 (IW / va) (IW / a)"
    by simp
  then have "close 2 (binary64 (IW / va)) (IW / a)"
    using low by (rule close_round) simp_all
  moreover have "close (2 + 0) (IW / a) (IH * max a b / a)"
    using wide close_refl [OF a] by (rule close_divide)
  ultimately have "close (2 + (2 + 0)) (binary64 (IW / va)) (IH * max a b / a)"
    by (rule close_trans)
  then show "close 4 (binary64 (IW / va)) (IH * max a b / a)"
    by simp
qed

text \<open>
  Differences may cancel, so the offsets and the source rectangle are followed with
  absolute errors.
\<close>

lemma roundoff_small: "0 < unit_roundoff" "unit_roundoff \<le> 1 / 1024" "eta \<le> unit_roundoff / 2" "0 < eta"
  by (simp_all add: unit_roundoff_def eta_def)

lemma round_abs:
  assumes "\<bar>p - q\<bar> \<le> E"
  shows "\<bar>binary64 p - q\<bar> \<le> E + unit_roundoff * (\<bar>q\<bar> + E) + eta"
proof -
  have "\<bar>p\<bar> \<le> \<bar>q\<bar> + E"
    using assms by linarith
  then have "unit_roundoff * \<bar>p\<bar> \<le> unit_roundoff * (\<bar>q\<bar> + E)"
    using roundoff_small(1) by (intro mult_left_mono) simp_all
  then show ?thesis
    using binary64_absolute [of p] assms unfolding eta_def by linarith
qed

lemma scaled_small:
  fixes T :: real
  assumes "0 \<le> T"
  shows "unit_roundoff * T \<le> T / 1024"
proof -
  have "unit_roundoff * T \<le> (1 / 1024) * T"
    using assms roundoff_small(2) by (intro mult_right_mono) simp_all
  then show ?thesis
    by simp
qed

lemma offset_rounded:
  fixes d D I :: real
  assumes near: "\<bar>d - D\<bar> \<le> 5 * unit_roundoff * D" and I: "1 \<le> I" and ID: "I \<le> D"
  shows "\<bar>binary64 (binary64 (I - d) / 2) - (I - D) / 2\<bar> \<le> 6 * unit_roundoff * D"
proof -
  define U where "U = unit_roundoff * D"
  define G where "G = \<bar>I - D\<bar>"
  define r where "r = binary64 (I - d)"
  have D: "1 \<le> D"
    using I ID by linarith
  have "unit_roundoff * 1 \<le> unit_roundoff * D"
    using D roundoff_small(1) by (intro mult_left_mono) simp_all
  then have U: "unit_roundoff \<le> U"
    by (simp add: U_def)
  have U0: "0 \<le> U"
    using U roundoff_small(1) by linarith
  have eta: "eta \<le> U / 2"
    using roundoff_small(3) U by linarith
  have uU: "unit_roundoff * U \<le> U / 1024"
    using U0 by (rule scaled_small)
  have G: "G \<le> D"
    using I ID by (simp add: G_def)
  have "unit_roundoff * G \<le> unit_roundoff * D"
    using G roundoff_small(1) by (intro mult_left_mono) simp_all
  then have uG: "unit_roundoff * G \<le> U"
    by (simp add: U_def)
  have "\<bar>(I - d) - (I - D)\<bar> = \<bar>d - D\<bar>"
    by simp
  then have "\<bar>(I - d) - (I - D)\<bar> \<le> 5 * U"
    using near by (simp add: U_def mult.assoc)
  then have "\<bar>r - (I - D)\<bar> \<le> 5 * U + unit_roundoff * (G + 5 * U) + eta"
    unfolding r_def G_def by (rule round_abs)
  moreover have "unit_roundoff * (G + 5 * U) = unit_roundoff * G + 5 * (unit_roundoff * U)"
    by (simp add: algebra_simps)
  ultimately have first: "\<bar>r - (I - D)\<bar> \<le> 7 * U"
    using uU uG eta U0 by linarith
  have "r / 2 - (I - D) / 2 = (r - (I - D)) / 2"
    by (simp add: diff_divide_distrib)
  then have "\<bar>r / 2 - (I - D) / 2\<bar> = \<bar>r - (I - D)\<bar> / 2"
    by (simp only: abs_divide abs_numeral)
  then have half: "\<bar>r / 2 - (I - D) / 2\<bar> \<le> 7 / 2 * U"
    using first by simp
  then have "\<bar>binary64 (r / 2) - (I - D) / 2\<bar>
               \<le> 7 / 2 * U + unit_roundoff * (\<bar>(I - D) / 2\<bar> + 7 / 2 * U) + eta"
    by (rule round_abs)
  moreover have "unit_roundoff * (\<bar>(I - D) / 2\<bar> + 7 / 2 * U) =
                   (unit_roundoff * G) / 2 + 7 / 2 * (unit_roundoff * U)"
    by (simp add: algebra_simps G_def)
  ultimately have "\<bar>binary64 (r / 2) - (I - D) / 2\<bar> \<le> 6 * U"
    using uG uU eta U0 by linarith
  then show ?thesis
    by (simp add: U_def r_def mult.assoc)
qed

lemma offset_flush:
  assumes "close 4 I D"
  shows "\<bar>0 - (I - D) / 2\<bar> \<le> 6 * unit_roundoff * D"
proof -
  define U where "U = unit_roundoff * D"
  have "\<bar>I - D\<bar> \<le> 5 * unit_roundoff * D"
    using assms by (rule close_abs4)
  then have "\<bar>I - D\<bar> \<le> 5 * U"
    by (simp add: U_def mult.assoc)
  moreover have "0 \<le> U"
    using assms roundoff_small(1) by (simp add: close_def U_def)
  ultimately have "\<bar>I - D\<bar> \<le> 12 * U"
    by linarith
  moreover have "\<bar>0 - (I - D) / 2\<bar> = \<bar>I - D\<bar> / 2"
    by (simp only: diff_0 abs_minus_cancel abs_divide abs_numeral)
  ultimately have "\<bar>0 - (I - D) / 2\<bar> \<le> 6 * U"
    by simp
  then show ?thesis
    by (simp add: U_def mult.assoc)
qed

lemma tolerance: "unit_roundoff * T = T / 2 ^ 48 / 32"
  by (simp add: unit_roundoff_def)

lemma size_rounded:
  fixes ww kx S V :: real
  assumes k: "\<bar>kx - S\<bar> \<le> 6 * unit_roundoff * S" and S: "0 < S" and V: "1 \<le> V"
  shows "\<bar>binary64 (ww * kx) - ww * S\<bar> \<le> (\<bar>ww * S\<bar> + V) / 2 ^ 48"
proof -
  define W where "W = \<bar>ww * S\<bar>"
  define uW where "uW = unit_roundoff * W"
  define uV where "uV = unit_roundoff * V"
  define L where "L = \<bar>binary64 (ww * kx) - ww * S\<bar>"
  have W0: "0 \<le> W"
    by (simp add: W_def)
  have uW0: "0 \<le> uW"
    using W0 roundoff_small(1) by (simp add: uW_def)
  have "ww * kx - ww * S = ww * (kx - S)"
    by (simp add: algebra_simps)
  then have "\<bar>ww * kx - ww * S\<bar> = \<bar>ww\<bar> * \<bar>kx - S\<bar>"
    by (simp add: abs_mult)
  also have "\<dots> \<le> \<bar>ww\<bar> * (6 * unit_roundoff * S)"
    using k by (intro mult_left_mono) simp_all
  also have "\<dots> = 6 * uW"
    using S by (simp add: abs_mult uW_def W_def)
  finally have "\<bar>ww * kx - ww * S\<bar> \<le> 6 * uW" .
  then have "L \<le> 6 * uW + unit_roundoff * (W + 6 * uW) + eta"
    unfolding W_def L_def by (rule round_abs)
  moreover have "unit_roundoff * (W + 6 * uW) = unit_roundoff * W + 6 * (unit_roundoff * uW)"
    by (simp add: algebra_simps)
  moreover have "unit_roundoff * W = uW"
    by (simp add: uW_def)
  moreover have "unit_roundoff * uW \<le> uW / 1024"
    using uW0 by (rule scaled_small)
  moreover have "eta \<le> uV"
  proof -
    have "unit_roundoff * 1 \<le> unit_roundoff * V"
      using V roundoff_small(1) by (intro mult_left_mono) simp_all
    then have "unit_roundoff \<le> uV"
      by (simp add: uV_def)
    then show ?thesis
      using roundoff_small(1,3) by linarith
  qed
  ultimately have "L \<le> 32 * uW + 32 * uV"
    using uW0 roundoff_small(4) by linarith
  also have "\<dots> = (W + V) / 2 ^ 48"
    unfolding uW_def uV_def tolerance [of W] tolerance [of V] by (simp add: add_divide_distrib)
  finally show ?thesis
    by (simp add: W_def L_def)
qed

lemma source_rounded:
  fixes xx d c kx S D V :: real
  assumes off: "\<bar>d - c\<bar> \<le> 6 * unit_roundoff * D"
    and k: "\<bar>kx - S\<bar> \<le> 6 * unit_roundoff * S"
    and S: "0 < S" and D: "1 \<le> D" and DS: "D * S = V" and V1: "1 \<le> V"
  shows "\<bar>binary64 (binary64 (xx - d) * kx) - (xx - c) * S\<bar> \<le> (\<bar>(xx - c) * S\<bar> + V) / 2 ^ 48"
proof -
  define Q where "Q = xx - c"
  define A where "A = \<bar>Q\<bar>"
  define W where "W = \<bar>Q * S\<bar>"
  define U where "U = unit_roundoff * D"
  define uA where "uA = unit_roundoff * A"
  define uW where "uW = unit_roundoff * W"
  define uV where "uV = unit_roundoff * V"
  define uS where "uS = unit_roundoff * S"
  define f where "f = binary64 (xx - d)"
  define F where "F = \<bar>f - Q\<bar>"
  define K where "K = \<bar>kx\<bar>"
  define G where "G = \<bar>kx - S\<bar>"
  define P where "P = \<bar>f * kx - Q * S\<bar>"
  define L where "L = \<bar>binary64 (f * kx) - Q * S\<bar>"
  have A0: "0 \<le> A" and W0: "0 \<le> W" and F0: "0 \<le> F" and K0: "0 \<le> K" and G0: "0 \<le> G"
    by (simp_all add: A_def W_def F_def K_def G_def)
  have WA: "W = A * S"
    using S by (simp add: W_def A_def abs_mult)
  have "unit_roundoff * 1 \<le> unit_roundoff * D"
    using D roundoff_small(1) by (intro mult_left_mono) simp_all
  then have U: "unit_roundoff \<le> U"
    by (simp add: U_def)
  have U0: "0 \<le> U"
    using U roundoff_small(1) by linarith
  have uA0: "0 \<le> uA" and uW0: "0 \<le> uW" and uS0: "0 \<le> uS"
    using A0 W0 S roundoff_small(1) by (simp_all add: uA_def uW_def uS_def)
  have V: "0 < V"
    using D S DS [symmetric] by simp
  have uV0: "0 \<le> uV"
    using V roundoff_small(1) by (simp add: uV_def)
  have eta: "eta \<le> U / 2"
    using roundoff_small(3) U by linarith
  have US: "U * S = uV"
    by (simp add: U_def uV_def DS [symmetric] mult.assoc)
  have uAS: "uA * S = uW"
    by (simp add: uA_def uW_def WA mult.assoc)
  have AuS: "A * uS = uW"
    by (simp add: uS_def uW_def WA mult_ac)
  have "\<bar>(xx - d) - Q\<bar> = \<bar>d - c\<bar>"
    by (simp add: Q_def)
  then have "\<bar>(xx - d) - Q\<bar> \<le> 6 * U"
    using off by (simp add: U_def mult.assoc)
  then have "F \<le> 6 * U + unit_roundoff * (A + 6 * U) + eta"
    unfolding F_def f_def A_def by (rule round_abs)
  moreover have "unit_roundoff * (A + 6 * U) = unit_roundoff * A + 6 * (unit_roundoff * U)"
    by (simp add: algebra_simps)
  moreover have "unit_roundoff * A = uA"
    by (simp add: uA_def)
  moreover have "unit_roundoff * U \<le> U / 1024"
    using U0 by (rule scaled_small)
  ultimately have F: "F \<le> 7 * U + uA"
    using eta U0 by linarith
  have G: "G \<le> 6 * uS"
    using k by (simp add: G_def uS_def mult.assoc)
  have "uS \<le> S / 1024"
    unfolding uS_def using S by (intro scaled_small) simp
  moreover have "K \<le> S + G"
    unfolding K_def G_def using S by linarith
  ultimately have K: "K \<le> 2 * S"
    using G S by linarith
  have "f * kx - Q * S = (f - Q) * kx + Q * (kx - S)"
    by (simp add: algebra_simps)
  then have "P \<le> \<bar>(f - Q) * kx\<bar> + \<bar>Q * (kx - S)\<bar>"
    unfolding P_def by (simp only: abs_triangle_ineq)
  then have "P \<le> F * K + A * G"
    by (simp add: abs_mult F_def K_def A_def G_def)
  moreover have "F * K \<le> (7 * U + uA) * (2 * S)"
    using F K K0 U0 uA0 by (intro mult_mono) simp_all
  moreover have "(7 * U + uA) * (2 * S) = 14 * (U * S) + 2 * (uA * S)"
    by (simp add: algebra_simps)
  moreover have "A * G \<le> A * (6 * uS)"
    using G A0 by (intro mult_left_mono) simp_all
  moreover have "A * (6 * uS) = 6 * (A * uS)"
    by simp
  ultimately have P: "P \<le> 14 * uV + 8 * uW"
    using US uAS AuS by linarith
  have "\<bar>f * kx - Q * S\<bar> \<le> 14 * uV + 8 * uW"
    using P by (simp add: P_def)
  then have "L \<le> (14 * uV + 8 * uW) + unit_roundoff * (W + (14 * uV + 8 * uW)) + eta"
    unfolding L_def W_def by (rule round_abs)
  moreover have "unit_roundoff * (W + (14 * uV + 8 * uW)) =
                   unit_roundoff * W + 14 * (unit_roundoff * uV) + 8 * (unit_roundoff * uW)"
    by (simp add: algebra_simps)
  moreover have "unit_roundoff * W = uW"
    by (simp add: uW_def)
  moreover have "unit_roundoff * uV \<le> uV / 1024"
    using uV0 by (rule scaled_small)
  moreover have "unit_roundoff * uW \<le> uW / 1024"
    using uW0 by (rule scaled_small)
  moreover have "eta \<le> uV"
  proof -
    have "unit_roundoff * 1 \<le> unit_roundoff * V"
      using V1 roundoff_small(1) by (intro mult_left_mono) simp_all
    then have "unit_roundoff \<le> uV"
      by (simp add: uV_def)
    then show ?thesis
      using roundoff_small(1,3) by linarith
  qed
  ultimately have "L \<le> 32 * uW + 32 * uV"
    using uW0 uV0 by linarith
  also have "\<dots> = (W + V) / 2 ^ 48"
    unfolding uW_def uV_def tolerance [of W] tolerance [of V] by (simp add: add_divide_distrib)
  finally show ?thesis
    by (simp add: W_def L_def Q_def f_def)
qed

lemma scale_rounded:
  fixes d D V :: real
  assumes "close 4 d D" and V: "1 \<le> V" and D: "D \<le> 2 ^ 120"
  shows "close 5 (binary64 (V / d)) (V / D)"
proof -
  have V0: "0 < V"
    using V by simp
  have D0: "0 < D"
    using assms(1) by (simp add: close_def)
  have "close (0 + 4) (V / d) (V / D)"
    using close_refl [OF V0] assms(1) by (rule close_divide)
  then have c: "close 4 (V / d) (V / D)"
    by simp
  have "1 / 2 ^ 120 \<le> 1 / D"
    using D0 D by (intro frac_le) simp_all
  also have "1 / D \<le> V / D"
    using V D0 by (intro divide_right_mono) simp_all
  finally have "1 / 2 ^ 1021 \<le> V / D"
    using tiny_le(3) by linarith
  with c show ?thesis
    by (rule close_round) simp_all
qed

lemma near_from_roundoff:
  assumes "\<bar>v - r\<bar> \<le> c * unit_roundoff * T" and "0 \<le> T" and "c \<le> 32" and "0 \<le> c"
  shows "near v r T"
proof -
  have "0 \<le> unit_roundoff * T"
    using assms(2) roundoff_small(1) by simp
  then have "c * (unit_roundoff * T) \<le> 32 * (unit_roundoff * T)"
    using assms(3) by (intro mult_right_mono) simp_all
  also have "\<dots> = T / 2 ^ 48"
    unfolding tolerance [of T] by simp
  finally show ?thesis
    using assms(1) by (simp add: near_def mult.assoc)
qed

section \<open>Arrays and the loops over them\<close>

lemma array_get_spread: "array_get (spread arr) j = array_get arr j"
  by (simp add: array_get_def spread_def split: entry.splits)

lemma array_get_set_other: "j \<noteq> i \<Longrightarrow> array_get (array_set arr i e) j = array_get arr j"
  by (auto simp add: array_get_def array_set_def nth_append split: entry.splits)

lemma array_get_set_same: "e \<noteq> Hole \<Longrightarrow> array_get (array_set arr i e) i = e"
  by (auto simp add: array_get_def array_set_def nth_append split: entry.splits)

lemma initMasks_fold:
  "n \<le> length refs \<Longrightarrow>
   foldl (initMasks_each origin) ([], refs) [0..<n] =
     (measure_all origin refs n,
      take n (map (map_option (\<lambda>mel. anchored (getBoundingClientRect origin mel) mel)) refs) @ drop n refs)"
proof (induction n)
  case 0
  then show ?case by (simp add: measure_all_def)
next
  case (Suc n)
  then have n: "n < length refs" by simp
  let ?f = "map_option (\<lambda>mel. anchored (getBoundingClientRect origin mel) mel)"
  have at_n: "ref_at (take n (map ?f refs) @ drop n refs) n = refs ! n"
    using n by (simp add: ref_at_def nth_append)
  have upd: "(take n (map ?f refs) @ drop n refs)[n := v] = take n (map ?f refs) @ v # drop (Suc n) refs" for v
    using n by (simp add: list_update_append upd_conv_take_nth_drop)
  have tk: "take (Suc n) (map ?f refs) = take n (map ?f refs) @ [?f (refs ! n)]"
    using n by (simp add: take_Suc_conv_app_nth)
  show ?case
  proof (cases "refs ! n")
    case None
    then have "ref_at refs n = None" using n by (simp add: ref_at_def)
    moreover have "drop n refs = None # drop (Suc n) refs"
      using n None by (metis Cons_nth_drop_Suc)
    ultimately show ?thesis
      using Suc n None at_n tk
      by (simp add: initMasks_each_def measure_all_def)
  next
    case (Some mel)
    then have "ref_at refs n = Some mel" using n by (simp add: ref_at_def)
    then show ?thesis
      using Suc n Some at_n tk upd
      by (simp add: initMasks_each_def measure_all_def Let_def)
  qed
qed

lemma initMasks_eq:
  "initMasks s =
     (measure_all (main_origin s) (maskRefs s) (length (maskRefs s)),
      map (map_option (\<lambda>mel. anchored (getBoundingClientRect (main_origin s) mel) mel)) (maskRefs s))"
  by (simp add: initMasks_def initMasks_fold)

lemma measure_all_get:
  "length (measure_all origin refs n) \<le> n \<and>
   (\<forall>j. array_get (measure_all origin refs n) j =
      (if j < n then (case ref_at refs j of None \<Rightarrow> Undefined
                      | Some mel \<Rightarrow> Obj (measured (getBoundingClientRect origin mel)))
       else Undefined))"
proof (induction n)
  case 0
  then show ?case by (simp add: measure_all_def array_get_def)
next
  case (Suc n)
  let ?ns = "measure_all origin refs n"
  have step: "measure_all origin refs (Suc n) =
      (case ref_at refs n of None \<Rightarrow> ?ns
       | Some mel \<Rightarrow> array_set ?ns n (Obj (measured (getBoundingClientRect origin mel))))"
    unfolding measure_all_def by simp
  show ?case
  proof (cases "ref_at refs n")
    case None
    with Suc step show ?thesis by (auto simp add: less_Suc_eq)
  next
    case (Some mel)
    have len: "length (array_set ?ns n e) = Suc n" for e
      using Suc by (simp add: array_set_def)
    show ?thesis
      using Suc Some step len
      by (auto simp add: less_Suc_eq array_get_set_same array_get_set_other)
  qed
qed

lemma measure_all_cong:
  assumes "map (map_option (getBoundingClientRect origin)) refs =
           map (map_option (getBoundingClientRect origin')) refs'"
  shows "measure_all origin refs n = measure_all origin' refs' n"
proof -
  have len: "length refs = length refs'"
    using assms by (metis length_map)
  have "(case ref_at refs j of None \<Rightarrow> ns
         | Some mel \<Rightarrow> array_set ns j (Obj (measured (getBoundingClientRect origin mel)))) =
        (case ref_at refs' j of None \<Rightarrow> ns
         | Some mel \<Rightarrow> array_set ns j (Obj (measured (getBoundingClientRect origin' mel))))" for j ns
  proof (cases "j < length refs")
    case True
    then have "map_option (getBoundingClientRect origin) (refs ! j) =
               map_option (getBoundingClientRect origin') (refs' ! j)"
      using assms len by (metis nth_map)
    then show ?thesis
      using True len by (auto simp add: ref_at_def split: option.splits)
  next
    case False
    then show ?thesis using len by (simp add: ref_at_def)
  qed
  then show ?thesis by (simp add: measure_all_def)
qed

lemma ref_at_update:
  "ref_at (refs[i := v]) j = (if j = i \<and> i < length refs then v else ref_at refs j)"
  by (simp add: ref_at_def)

lemma ref_at_Some_length: "ref_at refs i = Some v \<Longrightarrow> i < length refs"
  by (simp add: ref_at_def split: if_splits)

lemma updateCoords_length: "length (updateCoords ms labels i) = length labels"
  by (simp add: updateCoords_def split: option.splits prod.splits)

lemma updateCoords_at:
  "ref_at (updateCoords ms labels i) j =
     (if j = i \<and> ref_at labels i \<noteq> None \<and> position (array_get ms i) \<noteq> None
      then coords_text (array_get ms i) else ref_at labels j)"
  by (auto simp add: updateCoords_def coords_text_def ref_at_update
      dest: ref_at_Some_length split: option.splits prod.splits)

lemma array_get_object:
  "i < length ms \<Longrightarrow> ms ! i \<noteq> Hole \<Longrightarrow> array_get ms i = ms ! i"
  by (simp add: array_get_def split: entry.splits)

lemma position_object: "e \<noteq> Hole \<Longrightarrow> e \<noteq> Undefined \<Longrightarrow> position e \<noteq> None"
  by (cases e) simp_all

lemma draw_each_skip:
  assumes "\<not> drawable ms refs i" and "i < length ms"
  shows "draw_each fl v wn ms (refs, labels, Returned) i = (refs, labels, Returned)"
  using assms by (auto simp add: draw_each_def drawable_def split: option.splits)

lemma draw_each_paint:
  assumes "drawable ms refs i" and "ms ! i \<noteq> Undefined" and "ref_at refs i = Some canvas"
  shows "draw_each fl v wn ms (refs, labels, Returned) i =
           (refs[i := Some (paint fl v wn (ms ! i) canvas)], updateCoords ms labels i, Returned)"
  using assms by (auto simp add: draw_each_def drawable_def split: option.splits)

lemma draw_fold:
  assumes "Undefined \<notin> set ms" and "n \<le> length ms"
  shows "\<exists>refs' labels'.
           foldl (draw_each fl v wn ms) (refs, labels, Returned) [0..<n] = (refs', labels', Returned) \<and>
           length refs' = length refs \<and> length labels' = length labels \<and>
           (\<forall>i. ref_at refs' i =
                  (if i < n \<and> drawable ms refs i
                   then map_option (paint fl v wn (ms ! i)) (ref_at refs i) else ref_at refs i)) \<and>
           (\<forall>i. ref_at labels' i =
                  (if i < n \<and> drawable ms refs i \<and> ref_at labels i \<noteq> None
                   then coords_text (ms ! i) else ref_at labels i))"
  using assms(2)
proof (induction n)
  case 0
  then show ?case by simp
next
  case (Suc n)
  then have n: "n < length ms" by simp
  from Suc obtain refs' labels' where
    fold: "foldl (draw_each fl v wn ms) (refs, labels, Returned) [0..<n] = (refs', labels', Returned)"
    and len: "length refs' = length refs" "length labels' = length labels"
    and cs: "\<And>i. ref_at refs' i =
                  (if i < n \<and> drawable ms refs i
                   then map_option (paint fl v wn (ms ! i)) (ref_at refs i) else ref_at refs i)"
    and ls: "\<And>i. ref_at labels' i =
                  (if i < n \<and> drawable ms refs i \<and> ref_at labels i \<noteq> None
                   then coords_text (ms ! i) else ref_at labels i)"
    by auto
  have same: "ref_at refs' n = ref_at refs n" "ref_at labels' n = ref_at labels n"
    using cs [of n] ls [of n] by simp_all
  have dr: "drawable ms refs' n = drawable ms refs n"
    using same by (simp add: drawable_def)
  have step: "foldl (draw_each fl v wn ms) (refs, labels, Returned) [0..<Suc n] =
              draw_each fl v wn ms (refs', labels', Returned) n"
    using fold by simp
  show ?case
  proof (cases "drawable ms refs n")
    case False
    then have "draw_each fl v wn ms (refs', labels', Returned) n = (refs', labels', Returned)"
      using dr n by (simp add: draw_each_skip)
    then show ?thesis
      using step len cs ls False by (auto simp add: less_Suc_eq)
  next
    case True
    then obtain canvas where canvas: "ref_at refs n = Some canvas"
      by (auto simp add: drawable_def split: option.splits)
    have nu: "ms ! n \<noteq> Undefined"
      using assms(1) n by (metis nth_mem)
    have nh: "ms ! n \<noteq> Hole"
      using True by (simp add: drawable_def)
    have "draw_each fl v wn ms (refs', labels', Returned) n =
            (refs'[n := Some (paint fl v wn (ms ! n) canvas)], updateCoords ms labels' n, Returned)"
      using True dr nu canvas same by (simp add: draw_each_paint)
    moreover have "n < length refs'"
      using canvas same by (simp add: ref_at_Some_length)
    moreover have "array_get ms n = ms ! n"
      using n nh by (rule array_get_object)
    moreover have "position (ms ! n) \<noteq> None"
      using nh nu by (rule position_object)
    ultimately show ?thesis
      using step len cs ls True canvas same
      by (auto simp add: less_Suc_eq ref_at_update updateCoords_length updateCoords_at)
  qed
qed

section \<open>The handlers\<close>

lemma handleMouseDown_records:
  assumes "ref_at (maskRefs s) i = Some mel" and "array_get (maskStates s) i = Obj m"
  shows "draggingState (handleMouseDown fl s e i) =
           \<lparr>index = Some i, offsetX = fl (clientX e - x m), offsetY = fl (clientY e - y m)\<rparr>"
  using assms by (simp add: handleMouseDown_def)

lemma handleMouseMove_position:
  assumes "index (draggingState s) = Some i"
  shows "position (array_get (maskStates (handleMouseMove fl s e i)) i) =
           Some (fl (clientX e - offsetX (draggingState s)),
                 fl (clientY e - offsetY (draggingState s)))"
  using assms
  by (simp add: handleMouseMove_def Let_def array_get_set_same split: entry.splits)

lemma handleMouseMove_frame:
  "j \<noteq> i \<Longrightarrow> array_get (maskStates (handleMouseMove fl s e i)) j = array_get (maskStates s) j"
  by (simp add: handleMouseMove_def Let_def array_get_set_other array_get_spread)

lemma handleMouseMove_idle: "index (draggingState s) \<noteq> Some i \<Longrightarrow> handleMouseMove fl s e i = s"
  by (simp add: handleMouseMove_def)

lemma handleMouseUp_index: "index (draggingState (handleMouseUp s)) = None"
  by (simp add: handleMouseUp_def split: option.splits)

lemma ref_at_map: "ref_at (map (map_option f) refs) i = map_option f (ref_at refs i)"
  by (simp add: ref_at_def)

lemma handlePlaying_maskStates:
  "maskStates (handlePlaying fl s) = measure_all (main_origin s) (maskRefs s) (length (maskRefs s))"
  by (simp add: handlePlaying_def initMasks_eq split: prod.splits completion.splits)

lemma handlePlaying_maskRefs:
  "maskRefs (handlePlaying fl s) =
     map (map_option (\<lambda>mel. anchored (getBoundingClientRect (main_origin s) mel) mel)) (maskRefs s)"
  by (simp add: handlePlaying_def initMasks_eq split: prod.splits completion.splits)

lemma handlePlaying_other:
  "draggingState (handlePlaying fl s) = draggingState s"
  "isHovering (handlePlaying fl s) = isHovering s"
  "globalHudRef (handlePlaying fl s) = globalHudRef s"
  "main_origin (handlePlaying fl s) = main_origin s"
  by (simp_all add: handlePlaying_def split: prod.splits completion.splits)

lemma animationFrame_other:
  "draggingState (animationFrame fl s k) = draggingState s"
  "isHovering (animationFrame fl s k) = isHovering s"
  "globalHudRef (animationFrame fl s k) = globalHudRef s"
  "maskStates (animationFrame fl s k) = maskStates s"
  "maskRefs (animationFrame fl s k) = maskRefs s"
  by (simp_all add: animationFrame_def split: prod.splits)

text \<open>
  On the first \<^verbatim>\<open>playing\<close> event the array of the render is still empty, so
  \<^verbatim>\<open>initCanvases\<close> and \<^verbatim>\<open>draw\<close> have nothing to visit: no canvas and no label changes.
\<close>

lemma first_playing_paints_nothing:
  assumes "maskStates s = []"
  shows "canvasRefs (handlePlaying fl s) = canvasRefs s \<and>
         coordsRefs (handlePlaying fl s) = coordsRefs s"
  using assms
  by (simp add: handlePlaying_def initCanvases_def draw_def split: prod.splits option.splits)

lemma handlePlaying_measured:
  assumes "ref_at (maskRefs s) i = Some mel"
  shows "array_get (maskStates (handlePlaying fl s)) i =
           Obj (measured (getBoundingClientRect (main_origin s) mel))"
  using assms measure_all_get [of "main_origin s" "maskRefs s" "length (maskRefs s)"]
  by (simp add: handlePlaying_maskStates ref_at_Some_length)

lemma handleMouseMove_object:
  assumes "array_get (maskStates s) i = Obj m"
  shows "\<exists>m'. array_get (maskStates (handleMouseMove fl s e j)) i = Obj m' \<and> w m' = w m \<and> h m' = h m"
proof (cases "index (draggingState s) = Some j")
  case False
  then show ?thesis using assms by (simp add: handleMouseMove_def)
next
  case True
  show ?thesis
  proof (cases "j = i")
    case False
    then show ?thesis
      using True assms
      by (simp add: handleMouseMove_def Let_def array_get_set_other array_get_spread)
  next
    case same: True
    then show ?thesis
      using True assms
      by (simp add: handleMouseMove_def Let_def array_get_set_same array_get_spread)
  qed
qed

lemma step_keeps_size:
  assumes "ev \<noteq> Playing" and "array_get (maskStates s) i = Obj m"
  shows "\<exists>m'. array_get (maskStates (step fl s ev)) i = Obj m' \<and> w m' = w m \<and> h m' = h m"
proof (cases ev)
  case (MouseMove e j)
  then show ?thesis using assms(2) handleMouseMove_object by simp
next
  case (MouseDown e j)
  then show ?thesis using assms(2)
    by (simp add: handleMouseDown_def split: option.splits prod.splits)
next
  case MouseUp
  then show ?thesis using assms(2) by (simp add: handleMouseUp_def split: option.splits)
qed (use assms in \<open>simp_all add: animationFrame_other handleMouseMove_document_def Let_def
      handleMouseEnter_def handleMouseLeave_def hoverEffect_def\<close>)

lemma run_keeps_size:
  assumes "Playing \<notin> set evs" and "array_get (maskStates s) i = Obj m"
  shows "\<exists>m'. array_get (maskStates (run fl s evs)) i = Obj m' \<and> w m' = w m \<and> h m' = h m"
  using assms
proof (induction evs arbitrary: s m)
  case Nil
  then show ?case by (simp add: run_def)
next
  case (Cons ev evs)
  then have "ev \<noteq> Playing" by auto
  with Cons.prems(2) obtain m1 where
    m1: "array_get (maskStates (step fl s ev)) i = Obj m1" "w m1 = w m" "h m1 = h m"
    using step_keeps_size by blast
  from Cons.prems(1) have "Playing \<notin> set evs" by simp
  from Cons.IH [OF this m1(1)] m1(2,3) show ?case
    by (simp add: run_def)
qed

lemma drag_target_step: "drag_target s \<Longrightarrow> drag_target (step fl s ev)"
proof (cases ev)
  case Playing
  assume inv: "drag_target s"
  show ?thesis
  proof (cases "videoRef s")
    case None
    then show ?thesis using Playing inv by simp
  next
    case (Some v)
    have "drag_target (handlePlaying fl s)"
    proof (cases "index (draggingState s)")
      case None
      then show ?thesis by (simp add: drag_target_def handlePlaying_other)
    next
      case (Some i)
      then obtain mel where mel: "ref_at (maskRefs s) i = Some mel"
        using inv by (auto simp add: drag_target_def)
      then show ?thesis
        using Some handlePlaying_measured [OF mel, of fl]
        by (simp add: drag_target_def handlePlaying_other handlePlaying_maskRefs ref_at_map)
    qed
    then show ?thesis using Playing Some by simp
  qed
next
  case (MouseDown e i)
  assume "drag_target s"
  then show ?thesis
    using MouseDown
    by (auto simp add: handleMouseDown_def drag_target_def ref_at_update
        dest: ref_at_Some_length split: option.splits prod.splits)
next
  case (MouseMove e i)
  assume "drag_target s"
  then show ?thesis
    using MouseMove
    by (auto simp add: handleMouseMove_def Let_def drag_target_def ref_at_update array_get_set_same
        dest: ref_at_Some_length split: option.splits entry.splits)
next
  case MouseUp
  then show ?thesis by (simp add: handleMouseUp_def drag_target_def split: option.splits)
next
  case (AnimationFrame k)
  assume "drag_target s"
  then show ?thesis using AnimationFrame
    by (simp add: drag_target_def animationFrame_other split: option.splits)
next
  case (DocumentMouseMove e)
  assume "drag_target s"
  then show ?thesis using DocumentMouseMove
    by (simp add: drag_target_def handleMouseMove_document_def Let_def split: option.splits)
next
  case MouseEnter
  assume "drag_target s"
  then show ?thesis using MouseEnter
    by (simp add: drag_target_def handleMouseEnter_def split: option.splits)
next
  case MouseLeave
  assume "drag_target s"
  then show ?thesis using MouseLeave
    by (simp add: drag_target_def handleMouseLeave_def split: option.splits)
next
  case HoverEffect
  assume "drag_target s"
  then show ?thesis using HoverEffect
    by (simp add: drag_target_def hoverEffect_def split: option.splits)
qed

lemma reachable_drag_target: "reachable fl s \<Longrightarrow> drag_target s"
proof (induction rule: reachable.induct)
  case (first_render s)
  then show ?case by (simp add: initial_def drag_target_def)
next
  case (after_event s ev)
  then show ?case by (simp add: drag_target_step)
qed

section \<open>The geometry function: properties\<close>

lemma cover_scale_pos:
  assumes "0 < videoWidth video" and "0 < videoHeight video"
    and "0 < innerWidth wn" and "0 < innerHeight wn"
  shows "0 < cover_scale video wn"
  using assms by (simp add: cover_scale_def max_def)

lemma cover_placement_covers:
  assumes "0 < videoWidth video" and "0 < videoHeight video"
    and "0 < innerWidth wn" and "0 < innerHeight wn"
  shows "innerWidth wn \<le> dw (cover_placement video wn) \<and>
         innerHeight wn \<le> dh (cover_placement video wn)"
  using assms
  by (auto simp add: cover_placement_def cover_scale_def Let_def max_def field_simps)

lemma cover_source_inverse:
  assumes "0 < videoWidth video" and "0 < videoHeight video"
    and "0 < innerWidth wn" and "0 < innerHeight wn"
  shows "sx (cover_source video (cover_placement video wn) rect) * cover_scale video wn
           + dx (cover_placement video wn) = x rect \<and>
         sy (cover_source video (cover_placement video wn) rect) * cover_scale video wn
           + dy (cover_placement video wn) = y rect \<and>
         sw (cover_source video (cover_placement video wn) rect) * cover_scale video wn = w rect \<and>
         sh (cover_source video (cover_placement video wn) rect) * cover_scale video wn = h rect"
proof -
  have "0 < cover_scale video wn"
    using assms by (rule cover_scale_pos)
  then show ?thesis
    using assms(1,2) by (simp add: cover_source_def cover_placement_def Let_def)
qed

lemma cover_placement_dims:
  assumes "0 < videoWidth video" and "0 < videoHeight video"
    and "0 < innerWidth wn" and "0 < innerHeight wn"
  shows "dw (cover_placement video wn) =
           innerHeight wn * max (videoWidth video / videoHeight video) (innerWidth wn / innerHeight wn)"
    and "dh (cover_placement video wn) =
           innerHeight wn * max (videoWidth video / videoHeight video) (innerWidth wn / innerHeight wn)
             / (videoWidth video / videoHeight video)"
  using assms
  by (auto simp add: cover_placement_def cover_scale_def Let_def max_def field_simps)

lemma fit_wide:
  assumes "videoHeight video \<noteq> 0" and "innerHeight wn \<noteq> 0"
    and "binary64 (innerWidth wn / innerHeight wn) < binary64 (videoWidth video / videoHeight video)"
  shows "fit binary64 video wn =
           Some \<lparr>dw = binary64 (innerHeight wn * binary64 (videoWidth video / videoHeight video)),
                 dh = innerHeight wn,
                 dx = binary64 (binary64 (innerWidth wn
                        - binary64 (innerHeight wn * binary64 (videoWidth video / videoHeight video))) / 2),
                 dy = 0\<rparr>"
  using assms by (simp add: fit_def divide_number_def Let_def)

lemma fit_tall:
  assumes "videoHeight video \<noteq> 0" and "innerHeight wn \<noteq> 0"
    and "binary64 (videoWidth video / videoHeight video) \<noteq> 0"
    and "\<not> binary64 (innerWidth wn / innerHeight wn) < binary64 (videoWidth video / videoHeight video)"
  shows "fit binary64 video wn =
           Some \<lparr>dw = innerWidth wn,
                 dh = binary64 (innerWidth wn / binary64 (videoWidth video / videoHeight video)),
                 dx = 0,
                 dy = binary64 (binary64 (innerHeight wn
                        - binary64 (innerWidth wn / binary64 (videoWidth video / videoHeight video))) / 2)\<rparr>"
  using assms by (simp add: fit_def divide_number_def Let_def)

lemma cover_placement_offsets:
  "dx (cover_placement video wn) = (innerWidth wn - dw (cover_placement video wn)) / 2"
  "dy (cover_placement video wn) = (innerHeight wn - dh (cover_placement video wn)) / 2"
  by (simp_all add: cover_placement_def Let_def)

lemma cover_placement_scale:
  assumes "0 < videoWidth video" and "0 < videoHeight video"
    and "0 < innerWidth wn" and "0 < innerHeight wn"
  shows "videoWidth video / dw (cover_placement video wn) = 1 / cover_scale video wn"
    and "videoHeight video / dh (cover_placement video wn) = 1 / cover_scale video wn"
  using assms by (simp_all add: cover_placement_def Let_def)

lemma cover_placement_bounded:
  assumes "1 \<le> videoWidth video" and "videoWidth video \<le> 2 ^ 40"
    and "1 \<le> videoHeight video" and "videoHeight video \<le> 2 ^ 40"
    and "1 \<le> innerWidth wn" and "innerWidth wn \<le> 2 ^ 40"
    and "1 \<le> innerHeight wn" and "innerHeight wn \<le> 2 ^ 40"
  shows "dw (cover_placement video wn) \<le> 2 ^ 120" and "dh (cover_placement video wn) \<le> 2 ^ 120"
proof -
  have "innerWidth wn / videoWidth video \<le> 2 ^ 40"
    using assms(5,6,1,2) by (rule ratio_range(2))
  moreover have "innerHeight wn / videoHeight video \<le> 2 ^ 40"
    using assms(7,8,3,4) by (rule ratio_range(2))
  ultimately have k: "cover_scale video wn \<le> 2 ^ 40"
    by (simp add: cover_scale_def)
  have k0: "0 \<le> cover_scale video wn"
    using assms(1,5) by (simp add: cover_scale_def le_max_iff_disj)
  have "cover_scale video wn * videoWidth video \<le> 2 ^ 40 * 2 ^ 40"
    using k k0 assms(1,2) by (intro mult_mono) simp_all
  then show "dw (cover_placement video wn) \<le> 2 ^ 120"
    by (simp add: cover_placement_def Let_def)
  have "cover_scale video wn * videoHeight video \<le> 2 ^ 40 * 2 ^ 40"
    using k k0 assms(3,4) by (intro mult_mono) simp_all
  then show "dh (cover_placement video wn) \<le> 2 ^ 120"
    by (simp add: cover_placement_def Let_def)
qed

lemma cover_source_reference:
  "sx (cover_source video p rect) = (x rect - dx p) * (videoWidth video / dw p)"
  "sy (cover_source video p rect) = (y rect - dy p) * (videoHeight video / dh p)"
  "sw (cover_source video p rect) = w rect * (videoWidth video / dw p)"
  "sh (cover_source video p rect) = h rect * (videoHeight video / dh p)"
  by (simp_all add: cover_source_def)

text \<open>
  The placement in binary64. The two aspect ratios are each one rounding away from the
  true ratios, so the comparison of line 48 may take the other branch than the true
  ratios would, but only where the two ratios are equal up to two roundings; in either
  branch the width and the height computed are the cover placement's up to four
  roundings, and the offsets follow.
\<close>

lemma fit_rounded:
  assumes "1 \<le> videoWidth video" and "videoWidth video \<le> 2 ^ 40"
    and "1 \<le> videoHeight video" and "videoHeight video \<le> 2 ^ 40"
    and "1 \<le> innerWidth wn" and "innerWidth wn \<le> 2 ^ 40"
    and "1 \<le> innerHeight wn" and "innerHeight wn \<le> 2 ^ 40"
  shows "\<exists>p. fit binary64 video wn = Some p \<and>
           close 4 (dw p) (dw (cover_placement video wn)) \<and>
           close 4 (dh p) (dh (cover_placement video wn)) \<and>
           \<bar>dx p - dx (cover_placement video wn)\<bar>
             \<le> 6 * unit_roundoff * dw (cover_placement video wn) \<and>
           \<bar>dy p - dy (cover_placement video wn)\<bar>
             \<le> 6 * unit_roundoff * dh (cover_placement video wn)"
proof -
  let ?VW = "videoWidth video" and ?VH = "videoHeight video"
  let ?IW = "innerWidth wn" and ?IH = "innerHeight wn"
  let ?a = "?VW / ?VH" and ?b = "?IW / ?IH"
  let ?P = "cover_placement video wn"
  have pos: "0 < ?VW" "0 < ?VH" "0 < ?IW" "0 < ?IH"
    using assms by simp_all
  have va: "close 1 (binary64 ?a) ?a"
    using assms(1-4) by (rule aspect_rounded)
  have wa: "close 1 (binary64 ?b) ?b"
    using assms(5-8) by (rule aspect_rounded)
  have DW: "dw ?P = ?IH * max ?a ?b" and DH: "dh ?P = ?IH * max ?a ?b / ?a"
    using pos by (rule cover_placement_dims)+
  have covers: "?IW \<le> dw ?P" "?IH \<le> dh ?P"
    using cover_placement_covers [OF pos] by simp_all
  show ?thesis
  proof (cases "binary64 ?b < binary64 ?a")
    case True
    let ?d = "binary64 (?IH * binary64 ?a)"
    have fit: "fit binary64 video wn =
                 Some \<lparr>dw = ?d, dh = ?IH, dx = binary64 (binary64 (?IW - ?d) / 2), dy = 0\<rparr>"
      using pos True by (intro fit_wide) simp_all
    have "1 / 2 ^ 40 \<le> ?a"
      using assms(1-4) by (rule ratio_range(1))
    then have w: "close 4 ?d (dw ?P)" and t: "close 4 ?IH (dh ?P)"
      unfolding DW DH using va wa True assms(7) by (rule placement_wide [rotated 4])+
    have "\<bar>?d - dw ?P\<bar> \<le> 5 * unit_roundoff * dw ?P"
      using w by (rule close_abs4)
    then have "\<bar>binary64 (binary64 (?IW - ?d) / 2) - (?IW - dw ?P) / 2\<bar> \<le> 6 * unit_roundoff * dw ?P"
      using assms(5) covers(1) by (rule offset_rounded)
    moreover have "\<bar>0 - (?IH - dh ?P) / 2\<bar> \<le> 6 * unit_roundoff * dh ?P"
      using t by (rule offset_flush)
    ultimately show ?thesis
      using fit w t by (simp add: cover_placement_offsets)
  next
    case False
    let ?d = "binary64 (?IW / binary64 ?a)"
    have "0 < binary64 ?a"
      using va by (simp add: close_def)
    then have fit: "fit binary64 video wn =
                 Some \<lparr>dw = ?IW, dh = ?d, dx = 0, dy = binary64 (binary64 (?IH - ?d) / 2)\<rparr>"
      using pos False by (intro fit_tall) simp_all
    have eq: "?IH * ?b = ?IW"
      using pos by simp
    have "?a \<le> 2 ^ 40"
      using assms(1-4) by (rule ratio_range(2))
    with va wa False assms(5) pos(4) eq
    have w: "close 4 ?IW (dw ?P)" and t: "close 4 ?d (dh ?P)"
      unfolding DW DH by (rule placement_tall)+
    have "\<bar>?d - dh ?P\<bar> \<le> 5 * unit_roundoff * dh ?P"
      using t by (rule close_abs4)
    then have "\<bar>binary64 (binary64 (?IH - ?d) / 2) - (?IH - dh ?P) / 2\<bar> \<le> 6 * unit_roundoff * dh ?P"
      using assms(7) covers(2) by (rule offset_rounded)
    moreover have "\<bar>0 - (?IW - dw ?P) / 2\<bar> \<le> 6 * unit_roundoff * dw ?P"
      using w by (rule offset_flush)
    ultimately show ?thesis
      using fit w t by (simp add: cover_placement_offsets)
  qed
qed

text \<open>
  What does not depend on the rounding: the video is placed flush with the viewport on
  one axis, with no offset there, and the offset on the other axis is half of what the
  viewport lacks or has too much; the destination of the drawing is the target's size at
  the corner of the canvas.
\<close>

lemma fit_any_rounding:
  assumes "fit fl video wn = Some p"
  shows "(dh p = innerHeight wn \<and> dy p = 0 \<and> dx p = fl (fl (innerWidth wn - dw p) / 2)) \<or>
         (dw p = innerWidth wn \<and> dx p = 0 \<and> dy p = fl (fl (innerHeight wn - dh p) / 2))"
  using assms
  by (auto simp add: fit_def divide_number_def Let_def split: if_splits Option.bind_splits)

lemma drawClipped_destination:
  assumes "drawClipped fl video wn rect = Some a"
  shows "dest_x a = 0 \<and> dest_y a = 0 \<and> dest_w a = w rect \<and> dest_h a = h rect"
  using assms
  by (auto simp add: drawClipped_def split: Option.bind_splits)

lemma fit_hd:
  "fit binary64 \<lparr>videoWidth = 1920, videoHeight = 1080\<rparr> \<lparr>innerWidth = 1280, innerHeight = 720\<rparr> =
     Some \<lparr>dw = 1280, dh = 720, dx = 0, dy = 0\<rparr>"
  by (simp add: fit_def divide_number_def binary64_aspect binary64_height binary64_0)

lemma drawClipped_hd:
  "drawClipped binary64 \<lparr>videoWidth = 1920, videoHeight = 1080\<rparr>
       \<lparr>innerWidth = 1280, innerHeight = 720\<rparr> \<lparr>x = 100, y = 100, w = 200, h = 100\<rparr> =
     Some \<lparr>sx = 150, sy = 150, sw = 300, sh = 150,
           dest_x = 0, dest_y = 0, dest_w = 200, dest_h = 100\<rparr>"
  by (simp add: drawClipped_def fit_hd scaleX_def scaleY_def divide_number_def
      binary64_3_2 binary64_100 binary64_150 binary64_300)

text \<open>
  Claim C1. For a video of 1920 by 1080 pixels and a viewport of 1280 by 720, the
  geometry function maps the viewport rectangle at (100, 100) of size 200 by 100 to the
  source rectangle at (150, 150) of size 300 by 150: the video fills the viewport with no
  offset on either axis, and both scale factors are 1.5. This holds with the binary64
  rounding of JavaScript after every operation, and in exact arithmetic.
\<close>

theorem drawClipped_hd_scenario:
  "fit binary64 \<lparr>videoWidth = 1920, videoHeight = 1080\<rparr> \<lparr>innerWidth = 1280, innerHeight = 720\<rparr> =
     Some \<lparr>dw = 1280, dh = 720, dx = 0, dy = 0\<rparr> \<and>
   scaleX binary64 \<lparr>videoWidth = 1920, videoHeight = 1080\<rparr> \<lparr>dw = 1280, dh = 720, dx = 0, dy = 0\<rparr> =
     Some (3 / 2) \<and>
   scaleY binary64 \<lparr>videoWidth = 1920, videoHeight = 1080\<rparr> \<lparr>dw = 1280, dh = 720, dx = 0, dy = 0\<rparr> =
     Some (3 / 2) \<and>
   drawClipped binary64 \<lparr>videoWidth = 1920, videoHeight = 1080\<rparr>
       \<lparr>innerWidth = 1280, innerHeight = 720\<rparr> \<lparr>x = 100, y = 100, w = 200, h = 100\<rparr> =
     Some \<lparr>sx = 150, sy = 150, sw = 300, sh = 150,
           dest_x = 0, dest_y = 0, dest_w = 200, dest_h = 100\<rparr> \<and>
   drawClipped exact \<lparr>videoWidth = 1920, videoHeight = 1080\<rparr>
       \<lparr>innerWidth = 1280, innerHeight = 720\<rparr> \<lparr>x = 100, y = 100, w = 200, h = 100\<rparr> =
     Some \<lparr>sx = 150, sy = 150, sw = 300, sh = 150,
           dest_x = 0, dest_y = 0, dest_w = 200, dest_h = 100\<rparr>"
proof -
  have kx: "scaleX binary64 \<lparr>videoWidth = 1920, videoHeight = 1080\<rparr>
              \<lparr>dw = 1280, dh = 720, dx = 0, dy = 0\<rparr> = Some (3 / 2)"
    by (simp add: scaleX_def divide_number_def binary64_3_2)
  have ky: "scaleY binary64 \<lparr>videoWidth = 1920, videoHeight = 1080\<rparr>
              \<lparr>dw = 1280, dh = 720, dx = 0, dy = 0\<rparr> = Some (3 / 2)"
    by (simp add: scaleY_def divide_number_def binary64_3_2)
  have rounded: "drawClipped binary64 \<lparr>videoWidth = 1920, videoHeight = 1080\<rparr>
       \<lparr>innerWidth = 1280, innerHeight = 720\<rparr> \<lparr>x = 100, y = 100, w = 200, h = 100\<rparr> =
     Some \<lparr>sx = 150, sy = 150, sw = 300, sh = 150,
           dest_x = 0, dest_y = 0, dest_w = 200, dest_h = 100\<rparr>"
    by (simp add: drawClipped_def fit_hd kx ky binary64_100 binary64_150 binary64_300)
  have unrounded: "drawClipped exact \<lparr>videoWidth = 1920, videoHeight = 1080\<rparr>
       \<lparr>innerWidth = 1280, innerHeight = 720\<rparr> \<lparr>x = 100, y = 100, w = 200, h = 100\<rparr> =
     Some \<lparr>sx = 150, sy = 150, sw = 300, sh = 150,
           dest_x = 0, dest_y = 0, dest_w = 200, dest_h = 100\<rparr>"
    by (simp add: drawClipped_def fit_def scaleX_def scaleY_def divide_number_def exact_def)
  show ?thesis
    using fit_hd kx ky rounded unrounded by (intro conjI)
qed

text \<open>
  A video of 2520 by 1080 pixels in a viewport of 1120 by 480, evaluated in binary64. The
  two aspect ratios are both 7 / 3, which is not a binary64 number.
\<close>

lemma binary64_7_3: "binary64 (7 / 3) = 5254199565265579 / 2251799813685248"
  by (subst binary64_eval [where k = 1])
     (simp_all add: round_half_even_def power_int_diff power_int_minus)

lemma binary64_wide_height:
  "binary64 (2522015791327477760 / 5254199565265579) = 8444249301319679 / 17592186044416"
  by (subst binary64_eval [where k = 8])
     (simp_all add: round_half_even_def power_int_diff power_int_minus)

lemma binary64_wide_gap: "binary64 (1 / 17592186044416) = 1 / 17592186044416"
  by (subst binary64_eval [where k = "- 44"])
     (simp_all add: round_half_even_def power_int_diff power_int_minus)

lemma binary64_wide_offset: "binary64 (1 / 35184372088832) = 1 / 35184372088832"
  by (subst binary64_eval [where k = "- 45"])
     (simp_all add: round_half_even_def power_int_diff power_int_minus)

lemma binary64_9_4: "binary64 (9 / 4) = 9 / 4"
  by (subst binary64_eval [where k = 1])
     (simp_all add: round_half_even_def power_int_diff power_int_minus)

lemma binary64_wide_scale:
  "binary64 (18999560927969280 / 8444249301319679) = 5066549580791809 / 2251799813685248"
  by (subst binary64_eval [where k = 1])
     (simp_all add: round_half_even_def power_int_diff power_int_minus)

lemma binary64_225: "binary64 225 = 225"
  by (subst binary64_eval [where k = 7])
     (simp_all add: round_half_even_def power_int_diff power_int_minus)

lemma binary64_450: "binary64 450 = 450"
  by (subst binary64_eval [where k = 8])
     (simp_all add: round_half_even_def power_int_diff power_int_minus)

lemma binary64_wide_y: "binary64 (3518437208883199 / 35184372088832) = 3518437208883199 / 35184372088832"
  by (subst binary64_eval [where k = 6])
     (simp_all add: round_half_even_def power_int_diff power_int_minus)

lemma binary64_wide_sy:
  "binary64 (17826336565709474410435016916991 / 79228162514264337593543950336) =
     7916483719987199 / 35184372088832"
  by (subst binary64_eval [where k = 7])
     (simp_all add: round_half_even_def power_int_diff power_int_minus)

lemma binary64_wide_sh:
  "binary64 (126663739519795225 / 562949953421312) = 3958241859993601 / 17592186044416"
  by (subst binary64_eval [where k = 7])
     (simp_all add: round_half_even_def power_int_diff power_int_minus)

lemma fit_wide_screen:
  "fit binary64 \<lparr>videoWidth = 2520, videoHeight = 1080\<rparr> \<lparr>innerWidth = 1120, innerHeight = 480\<rparr> =
     Some \<lparr>dw = 1120, dh = 8444249301319679 / 17592186044416, dx = 0, dy = 1 / 35184372088832\<rparr>"
  by (simp add: fit_def divide_number_def binary64_7_3 binary64_wide_height binary64_wide_gap
      binary64_wide_offset)

lemma scaleX_wide_screen:
  "scaleX binary64 \<lparr>videoWidth = 2520, videoHeight = 1080\<rparr>
     \<lparr>dw = 1120, dh = 8444249301319679 / 17592186044416, dx = 0, dy = 1 / 35184372088832\<rparr> =
     Some (9 / 4)"
  by (simp add: scaleX_def divide_number_def binary64_9_4)

lemma scaleY_wide_screen:
  "scaleY binary64 \<lparr>videoWidth = 2520, videoHeight = 1080\<rparr>
     \<lparr>dw = 1120, dh = 8444249301319679 / 17592186044416, dx = 0, dy = 1 / 35184372088832\<rparr> =
     Some (5066549580791809 / 2251799813685248)"
  by (simp add: scaleY_def divide_number_def binary64_wide_scale)

lemma drawClipped_wide_screen:
  "drawClipped binary64 \<lparr>videoWidth = 2520, videoHeight = 1080\<rparr>
       \<lparr>innerWidth = 1120, innerHeight = 480\<rparr> \<lparr>x = 100, y = 100, w = 200, h = 100\<rparr> =
     Some \<lparr>sx = 225, sy = 7916483719987199 / 35184372088832, sw = 450,
           sh = 3958241859993601 / 17592186044416,
           dest_x = 0, dest_y = 0, dest_w = 200, dest_h = 100\<rparr>"
  by (simp add: drawClipped_def fit_wide_screen scaleX_wide_screen scaleY_wide_screen
      binary64_100 binary64_225 binary64_450 binary64_wide_y binary64_wide_sy binary64_wide_sh)

lemma cover_wide_screen:
  "cover_placement \<lparr>videoWidth = 2520, videoHeight = 1080\<rparr> \<lparr>innerWidth = 1120, innerHeight = 480\<rparr> =
     \<lparr>dw = 1120, dh = 480, dx = 0, dy = 0\<rparr>"
  "cover_scale \<lparr>videoWidth = 2520, videoHeight = 1080\<rparr> \<lparr>innerWidth = 1120, innerHeight = 480\<rparr> = 4 / 9"
  "cover_source \<lparr>videoWidth = 2520, videoHeight = 1080\<rparr> \<lparr>dw = 1120, dh = 480, dx = 0, dy = 0\<rparr>
       \<lparr>x = 100, y = 100, w = 200, h = 100\<rparr> =
     \<lparr>sx = 225, sy = 225, sw = 450, sh = 225, dest_x = 0, dest_y = 0, dest_w = 200, dest_h = 100\<rparr>"
  by (simp_all add: cover_placement_def cover_scale_def cover_source_def)

text \<open>
  Claim C2, as amended. For a video and a viewport whose four dimensions lie between 1
  and \<open>2 ^ 40\<close>, and a target rectangle whose four numbers are at most \<open>2 ^ 40\<close> in
  magnitude, the geometry function, computing in binary64, divides by no zero and returns
  the object-fit cover mapping up to rounding: the rectangle it places the video in is
  near the video scaled by the larger of the two ratios viewport over video and centred
  in the viewport; both of its scale factors are near the inverse of that ratio; and the
  source rectangle it passes to \<^verbatim>\<open>drawImage\<close> is near the one given by the formulas of the
  claim, each within \<open>1 / 2 ^ 48\<close> in the sense of \<open>near\<close>, \<open>placement_near\<close> and
  \<open>source_near\<close>. The destination is the target's size at the corner of the canvas. The
  cover placement itself covers the viewport, and the image of the source rectangle of
  the formulas under scaling and then moving by \<open>(dx, dy)\<close> is the target rectangle. The
  bounds on the inputs keep every number on the way finite.
\<close>

theorem drawClipped_cover_rounded:
  assumes "1 \<le> videoWidth video" and "videoWidth video \<le> 2 ^ 40"
    and "1 \<le> videoHeight video" and "videoHeight video \<le> 2 ^ 40"
    and "1 \<le> innerWidth wn" and "innerWidth wn \<le> 2 ^ 40"
    and "1 \<le> innerHeight wn" and "innerHeight wn \<le> 2 ^ 40"
    and "\<bar>x rect\<bar> \<le> 2 ^ 40" and "\<bar>y rect\<bar> \<le> 2 ^ 40"
    and "\<bar>w rect\<bar> \<le> 2 ^ 40" and "\<bar>h rect\<bar> \<le> 2 ^ 40"
  shows "(case fit binary64 video wn of
            None \<Rightarrow> False
          | Some p \<Rightarrow>
              placement_near p (cover_placement video wn) \<and>
              (case scaleX binary64 video p of
                 None \<Rightarrow> False
               | Some kx \<Rightarrow> near kx (1 / cover_scale video wn) (1 / cover_scale video wn)) \<and>
              (case scaleY binary64 video p of
                 None \<Rightarrow> False
               | Some ky \<Rightarrow> near ky (1 / cover_scale video wn) (1 / cover_scale video wn))) \<and>
         (case drawClipped binary64 video wn rect of
            None \<Rightarrow> False
          | Some a \<Rightarrow> source_near video a (cover_source video (cover_placement video wn) rect)) \<and>
         innerWidth wn \<le> dw (cover_placement video wn) \<and>
         innerHeight wn \<le> dh (cover_placement video wn) \<and>
         sx (cover_source video (cover_placement video wn) rect) * cover_scale video wn
           + dx (cover_placement video wn) = x rect \<and>
         sy (cover_source video (cover_placement video wn) rect) * cover_scale video wn
           + dy (cover_placement video wn) = y rect \<and>
         sw (cover_source video (cover_placement video wn) rect) * cover_scale video wn = w rect \<and>
         sh (cover_source video (cover_placement video wn) rect) * cover_scale video wn = h rect"
proof -
  let ?VW = "videoWidth video" and ?VH = "videoHeight video"
  let ?P = "cover_placement video wn"
  let ?R = "cover_source video ?P rect"
  let ?S = "1 / cover_scale video wn"
  have pos: "0 < ?VW" "0 < ?VH" "0 < innerWidth wn" "0 < innerHeight wn"
    using assms by simp_all
  obtain p where fit: "fit binary64 video wn = Some p"
    and w: "close 4 (dw p) (dw ?P)" and t: "close 4 (dh p) (dh ?P)"
    and ox: "\<bar>dx p - dx ?P\<bar> \<le> 6 * unit_roundoff * dw ?P"
    and oy: "\<bar>dy p - dy ?P\<bar> \<le> 6 * unit_roundoff * dh ?P"
    using fit_rounded [OF assms(1-8)] by blast
  have covers: "innerWidth wn \<le> dw ?P" "innerHeight wn \<le> dh ?P"
    using cover_placement_covers [OF pos] by simp_all
  have DW: "1 \<le> dw ?P" and DH: "1 \<le> dh ?P"
    using covers assms(5,7) by linarith+
  have SX: "?VW / dw ?P = ?S" and SY: "?VH / dh ?P = ?S"
    using pos by (rule cover_placement_scale)+
  have S: "0 < ?S"
    using cover_scale_pos [OF pos] by simp
  have "dw ?P * (?VW / dw ?P) = ?VW" and "dh ?P * (?VH / dh ?P) = ?VH"
    using DW DH by simp_all
  then have DSX: "dw ?P * ?S = ?VW" and DSY: "dh ?P * ?S = ?VH"
    unfolding SX SY .
  define kx where "kx = binary64 (?VW / dw p)"
  define ky where "ky = binary64 (?VH / dh p)"
  have nz: "dw p \<noteq> 0" "dh p \<noteq> 0"
    using w t by (simp_all add: close_def)
  have scaleX: "scaleX binary64 video p = Some kx" and scaleY: "scaleY binary64 video p = Some ky"
    using nz by (simp_all add: scaleX_def scaleY_def divide_number_def kx_def ky_def)
  have "close 5 kx (?VW / dw ?P)"
    unfolding kx_def using w assms(1) cover_placement_bounded(1) [OF assms(1-8)] by (rule scale_rounded)
  then have kx: "\<bar>kx - ?S\<bar> \<le> 6 * unit_roundoff * ?S"
    unfolding SX by (rule close_abs5)
  have "close 5 ky (?VH / dh ?P)"
    unfolding ky_def using t assms(3) cover_placement_bounded(2) [OF assms(1-8)] by (rule scale_rounded)
  then have ky: "\<bar>ky - ?S\<bar> \<le> 6 * unit_roundoff * ?S"
    unfolding SY by (rule close_abs5)
  have S0: "0 \<le> ?S" and DW0: "0 \<le> dw ?P" and DH0: "0 \<le> dh ?P"
    using S DW DH by simp_all
  have placed: "placement_near p ?P"
    unfolding placement_near_def
  proof (intro conjI)
    show "near (dw p) (dw ?P) (dw ?P)"
      using close_abs4 [OF w] DW0 by (rule near_from_roundoff) simp_all
    show "near (dh p) (dh ?P) (dh ?P)"
      using close_abs4 [OF t] DH0 by (rule near_from_roundoff) simp_all
    show "near (dx p) (dx ?P) (dw ?P)"
      using ox DW0 by (rule near_from_roundoff) simp_all
    show "near (dy p) (dy ?P) (dh ?P)"
      using oy DH0 by (rule near_from_roundoff) simp_all
  qed
  have scales: "near kx ?S ?S" "near ky ?S ?S"
    using kx ky S0 by (auto intro: near_from_roundoff)
  have drawn: "drawClipped binary64 video wn rect =
                 Some \<lparr>sx = binary64 (binary64 (x rect - dx p) * kx),
                       sy = binary64 (binary64 (y rect - dy p) * ky),
                       sw = binary64 (w rect * kx),
                       sh = binary64 (h rect * ky),
                       dest_x = 0, dest_y = 0, dest_w = w rect, dest_h = h rect\<rparr>"
    by (simp add: drawClipped_def fit scaleX scaleY)
  have "near (binary64 (binary64 (x rect - dx p) * kx)) (sx ?R) (\<bar>sx ?R\<bar> + ?VW)"
    unfolding near_def cover_source_reference SX
    using ox kx S DW DSX assms(1) by (rule source_rounded)
  moreover have "near (binary64 (binary64 (y rect - dy p) * ky)) (sy ?R) (\<bar>sy ?R\<bar> + ?VH)"
    unfolding near_def cover_source_reference SY
    using oy ky S DH DSY assms(3) by (rule source_rounded)
  moreover have "near (binary64 (w rect * kx)) (sw ?R) (\<bar>sw ?R\<bar> + ?VW)"
    unfolding near_def cover_source_reference SX
    using kx S assms(1) by (rule size_rounded)
  moreover have "near (binary64 (h rect * ky)) (sh ?R) (\<bar>sh ?R\<bar> + ?VH)"
    unfolding near_def cover_source_reference SY
    using ky S assms(3) by (rule size_rounded)
  ultimately have source: "case drawClipped binary64 video wn rect of
                     None \<Rightarrow> False | Some a \<Rightarrow> source_near video a ?R"
    unfolding drawn by (simp add: source_near_def cover_source_def)
  have first: "case fit binary64 video wn of
            None \<Rightarrow> False
          | Some p \<Rightarrow>
              placement_near p ?P \<and>
              (case scaleX binary64 video p of None \<Rightarrow> False | Some kx \<Rightarrow> near kx ?S ?S) \<and>
              (case scaleY binary64 video p of None \<Rightarrow> False | Some ky \<Rightarrow> near ky ?S ?S)"
    using placed scales by (simp add: fit scaleX scaleY)
  show ?thesis
    using first source covers cover_source_inverse [OF pos, of rect] by (intro conjI) simp_all
qed

theorem drawClipped_cover_rounded_witness:
  "fit binary64 \<lparr>videoWidth = 2520, videoHeight = 1080\<rparr> \<lparr>innerWidth = 1120, innerHeight = 480\<rparr> =
     Some \<lparr>dw = 1120, dh = 8444249301319679 / 17592186044416, dx = 0, dy = 1 / 35184372088832\<rparr> \<and>
   placement_near
     \<lparr>dw = 1120, dh = 8444249301319679 / 17592186044416, dx = 0, dy = 1 / 35184372088832\<rparr>
     \<lparr>dw = 1120, dh = 480, dx = 0, dy = 0\<rparr> \<and>
   near (9 / 4) (9 / 4) (9 / 4) \<and>
   near (5066549580791809 / 2251799813685248) (9 / 4) (9 / 4) \<and>
   drawClipped binary64 \<lparr>videoWidth = 2520, videoHeight = 1080\<rparr>
       \<lparr>innerWidth = 1120, innerHeight = 480\<rparr> \<lparr>x = 100, y = 100, w = 200, h = 100\<rparr> =
     Some \<lparr>sx = 225, sy = 7916483719987199 / 35184372088832, sw = 450,
           sh = 3958241859993601 / 17592186044416,
           dest_x = 0, dest_y = 0, dest_w = 200, dest_h = 100\<rparr> \<and>
   source_near \<lparr>videoWidth = 2520, videoHeight = 1080\<rparr>
     \<lparr>sx = 225, sy = 7916483719987199 / 35184372088832, sw = 450,
      sh = 3958241859993601 / 17592186044416,
      dest_x = 0, dest_y = 0, dest_w = 200, dest_h = 100\<rparr>
     \<lparr>sx = 225, sy = 225, sw = 450, sh = 225,
      dest_x = 0, dest_y = 0, dest_w = 200, dest_h = 100\<rparr>"
  using drawClipped_cover_rounded [of "\<lparr>videoWidth = 2520, videoHeight = 1080\<rparr>"
      "\<lparr>innerWidth = 1120, innerHeight = 480\<rparr>" "\<lparr>x = 100, y = 100, w = 200, h = 100\<rparr>"]
  by (simp add: fit_wide_screen scaleX_wide_screen scaleY_wide_screen drawClipped_wide_screen
      cover_wide_screen)

text \<open>
  The claim as it was stated, with the mapping computed exactly, fails in binary64. For
  the video of 2520 by 1080 in the viewport of 1120 by 480 the height
  \<^verbatim>\<open>dw / videoAspect\<close> is rounded to \<open>480 - 1 / 2 ^ 44\<close>: the placed video is lower than
  the viewport, it is moved down by \<open>1 / 2 ^ 45\<close>, the vertical scale factor is
  \<open>9 / 4 + 1 / 2 ^ 51\<close> where the horizontal one is \<open>9 / 4\<close>, and the source rectangle
  of the target (100, 100, 200, 100) is not the (225, 225, 450, 225) of the formulas.
\<close>

theorem drawClipped_not_cover:
  "fit binary64 \<lparr>videoWidth = 2520, videoHeight = 1080\<rparr> \<lparr>innerWidth = 1120, innerHeight = 480\<rparr> =
     Some \<lparr>dw = 1120, dh = 8444249301319679 / 17592186044416, dx = 0, dy = 1 / 35184372088832\<rparr> \<and>
   cover_placement \<lparr>videoWidth = 2520, videoHeight = 1080\<rparr> \<lparr>innerWidth = 1120, innerHeight = 480\<rparr> =
     \<lparr>dw = 1120, dh = 480, dx = 0, dy = 0\<rparr> \<and>
   (8444249301319679 / 17592186044416 :: real) < innerHeight \<lparr>innerWidth = 1120, innerHeight = 480\<rparr> \<and>
   scaleX binary64 \<lparr>videoWidth = 2520, videoHeight = 1080\<rparr>
     \<lparr>dw = 1120, dh = 8444249301319679 / 17592186044416, dx = 0, dy = 1 / 35184372088832\<rparr> =
     Some (9 / 4) \<and>
   scaleY binary64 \<lparr>videoWidth = 2520, videoHeight = 1080\<rparr>
     \<lparr>dw = 1120, dh = 8444249301319679 / 17592186044416, dx = 0, dy = 1 / 35184372088832\<rparr> =
     Some (5066549580791809 / 2251799813685248) \<and>
   drawClipped binary64 \<lparr>videoWidth = 2520, videoHeight = 1080\<rparr>
       \<lparr>innerWidth = 1120, innerHeight = 480\<rparr> \<lparr>x = 100, y = 100, w = 200, h = 100\<rparr> =
     Some \<lparr>sx = 225, sy = 7916483719987199 / 35184372088832, sw = 450,
           sh = 3958241859993601 / 17592186044416,
           dest_x = 0, dest_y = 0, dest_w = 200, dest_h = 100\<rparr> \<and>
   cover_source \<lparr>videoWidth = 2520, videoHeight = 1080\<rparr>
       (cover_placement \<lparr>videoWidth = 2520, videoHeight = 1080\<rparr> \<lparr>innerWidth = 1120, innerHeight = 480\<rparr>)
       \<lparr>x = 100, y = 100, w = 200, h = 100\<rparr> =
     \<lparr>sx = 225, sy = 225, sw = 450, sh = 225,
      dest_x = 0, dest_y = 0, dest_w = 200, dest_h = 100\<rparr> \<and>
   fit binary64 \<lparr>videoWidth = 2520, videoHeight = 1080\<rparr> \<lparr>innerWidth = 1120, innerHeight = 480\<rparr> \<noteq>
     Some (cover_placement \<lparr>videoWidth = 2520, videoHeight = 1080\<rparr>
            \<lparr>innerWidth = 1120, innerHeight = 480\<rparr>) \<and>
   drawClipped binary64 \<lparr>videoWidth = 2520, videoHeight = 1080\<rparr>
       \<lparr>innerWidth = 1120, innerHeight = 480\<rparr> \<lparr>x = 100, y = 100, w = 200, h = 100\<rparr> \<noteq>
     Some (cover_source \<lparr>videoWidth = 2520, videoHeight = 1080\<rparr>
            (cover_placement \<lparr>videoWidth = 2520, videoHeight = 1080\<rparr>
               \<lparr>innerWidth = 1120, innerHeight = 480\<rparr>)
            \<lparr>x = 100, y = 100, w = 200, h = 100\<rparr>)"
  by (simp add: fit_wide_screen scaleX_wide_screen scaleY_wide_screen drawClipped_wide_screen
      cover_wide_screen)

section \<open>Dragging: properties\<close>

lemma binary64_10: "binary64 10 = 10"
  by (subst binary64_eval [where k = 3])
     (simp_all add: round_half_even_def power_int_diff power_int_minus)

lemma binary64_15: "binary64 15 = 15"
  by (subst binary64_eval [where k = 3])
     (simp_all add: round_half_even_def power_int_diff power_int_minus)

lemma binary64_70: "binary64 70 = 70"
  by (subst binary64_eval [where k = 6])
     (simp_all add: round_half_even_def power_int_diff power_int_minus)

lemma binary64_75: "binary64 75 = 75"
  by (subst binary64_eval [where k = 6])
     (simp_all add: round_half_even_def power_int_diff power_int_minus)

lemma mounted_mask_2: "ref_at (maskRefs mounted) 2 = Some (mask_at 40 45 448 144)"
  by (simp add: mounted_def ref_at_def)

lemma mounted_mask_0: "ref_at (maskRefs mounted) 0 = Some (mask_at 100 100 200 100)"
  by (simp add: mounted_def ref_at_def)

lemma measured_mask_at:
  "measured (getBoundingClientRect origin (mask_at l t wd ht)) = \<lparr>x = l, y = t, w = wd, h = ht\<rparr>"
  by (simp add: measured_def getBoundingClientRect_def mask_at_def)

lemma playing_state_2:
  "array_get (maskStates (handlePlaying fl mounted)) 2 = Obj \<lparr>x = 40, y = 45, w = 448, h = 144\<rparr>"
  using handlePlaying_measured [OF mounted_mask_2, of fl] by (simp add: measured_mask_at)

lemma playing_state_0:
  "array_get (maskStates (handlePlaying fl mounted)) 0 = Obj \<lparr>x = 100, y = 100, w = 200, h = 100\<rparr>"
  using handlePlaying_measured [OF mounted_mask_0, of fl] by (simp add: measured_mask_at)

lemma playing_mask_2:
  "ref_at (maskRefs (handlePlaying fl mounted)) 2 =
     Some (anchored (getBoundingClientRect (0, 0) (mask_at 40 45 448 144)) (mask_at 40 45 448 144))"
  by (simp add: handlePlaying_maskRefs ref_at_map mounted_mask_2) (simp add: mounted_def)

lemma handleMouseDown_maskStates: "maskStates (handleMouseDown fl s e i) = maskStates s"
  by (simp add: handleMouseDown_def split: option.splits prod.splits)

lemma step_keeps_drag:
  assumes "\<not> ends_drag ev"
  shows "draggingState (step fl s ev) = draggingState s"
  using assms
  by (cases ev)
     (simp_all add: handlePlaying_other animationFrame_other handleMouseMove_document_def Let_def
       handleMouseMove_def handleMouseEnter_def handleMouseLeave_def hoverEffect_def
       split: option.splits)

lemma run_keeps_drag:
  assumes "list_all (\<lambda>ev. \<not> ends_drag ev) evs"
  shows "draggingState (run fl s evs) = draggingState s"
  using assms
proof (induction evs arbitrary: s)
  case Nil
  then show ?case by (simp add: run_def)
next
  case (Cons ev evs)
  then have "draggingState (run fl (step fl s ev) evs) = draggingState (step fl s ev)"
    by simp
  then show ?case
    using Cons.prems by (simp add: run_def step_keeps_drag)
qed

text \<open>
  Claim C3. A pointer-down on the mask \<open>i\<close>, whose element is mounted and whose
  \<^verbatim>\<open>maskStates\<close> element is the object \<open>m\<close>, records the index \<open>i\<close> and the offset
  pointer position minus \<open>(x m, y m)\<close>. The record stays through every sequence of
  events that neither ends the drag nor starts another (no pointer-up, no pointer-down):
  pointer-moves on this mask and on others, document pointer-moves, frames, enter, leave,
  a \<^verbatim>\<open>playing\<close> event. After any such sequence a pointer-move on the mask \<open>i\<close> sets the
  position of \<^verbatim>\<open>maskStates[i]\<close> to the pointer position minus the offset recorded at the
  pointer-down. The subtractions are those of the language, \<open>fl\<close> being its rounding.
\<close>

theorem drag_offset_then_follow:
  assumes "ref_at (maskRefs s) i = Some mel" and "array_get (maskStates s) i = Obj m"
    and "list_all (\<lambda>ev. \<not> ends_drag ev) evs"
  shows "draggingState (run fl (handleMouseDown fl s e i) evs) =
           \<lparr>index = Some i, offsetX = fl (clientX e - x m), offsetY = fl (clientY e - y m)\<rparr> \<and>
         position
           (array_get (maskStates (handleMouseMove fl (run fl (handleMouseDown fl s e i) evs) e' i)) i) =
           Some (fl (clientX e' - fl (clientX e - x m)), fl (clientY e' - fl (clientY e - y m)))"
proof -
  let ?t = "run fl (handleMouseDown fl s e i) evs"
  have kept: "draggingState ?t =
      \<lparr>index = Some i, offsetX = fl (clientX e - x m), offsetY = fl (clientY e - y m)\<rparr>"
    using run_keeps_drag [OF assms(3)] handleMouseDown_records [OF assms(1,2)] by simp
  then have "index (draggingState ?t) = Some i"
    by simp
  from handleMouseMove_position [OF this, of fl e'] kept show ?thesis
    by simp
qed

theorem drag_offset_then_follow_witness:
  "array_get (maskStates (handlePlaying binary64 mounted)) 2 =
     Obj \<lparr>x = 40, y = 45, w = 448, h = 144\<rparr> \<and>
   draggingState
     (run binary64
       (handleMouseDown binary64 (handlePlaying binary64 mounted) \<lparr>clientX = 50, clientY = 60\<rparr> 2)
       []) =
     \<lparr>index = Some 2, offsetX = 10, offsetY = 15\<rparr> \<and>
   position
     (array_get
       (maskStates
         (handleMouseMove binary64
           (run binary64
             (handleMouseDown binary64 (handlePlaying binary64 mounted)
                \<lparr>clientX = 50, clientY = 60\<rparr> 2)
             [])
           \<lparr>clientX = 80, clientY = 90\<rparr> 2)) 2) =
     Some (70, 75) \<and>
   draggingState
     (run binary64
       (handleMouseDown binary64 (handlePlaying binary64 mounted) \<lparr>clientX = 50, clientY = 60\<rparr> 2)
       [MouseMove \<lparr>clientX = 80, clientY = 90\<rparr> 2, AnimationFrame 0,
        DocumentMouseMove \<lparr>clientX = 81, clientY = 91\<rparr>, MouseMove \<lparr>clientX = 85, clientY = 95\<rparr> 1,
        MouseLeave, HoverEffect, MouseEnter]) =
     \<lparr>index = Some 2, offsetX = 10, offsetY = 15\<rparr> \<and>
   position
     (array_get
       (maskStates
         (handleMouseMove binary64
           (run binary64
             (handleMouseDown binary64 (handlePlaying binary64 mounted)
                \<lparr>clientX = 50, clientY = 60\<rparr> 2)
             [MouseMove \<lparr>clientX = 80, clientY = 90\<rparr> 2, AnimationFrame 0,
              DocumentMouseMove \<lparr>clientX = 81, clientY = 91\<rparr>,
              MouseMove \<lparr>clientX = 85, clientY = 95\<rparr> 1, MouseLeave, HoverEffect, MouseEnter])
           \<lparr>clientX = 85, clientY = 90\<rparr> 2)) 2) =
     Some (75, 75)"
proof -
  have first: "list_all (\<lambda>ev. \<not> ends_drag ev) []"
    by simp
  have later: "list_all (\<lambda>ev. \<not> ends_drag ev)
       [MouseMove \<lparr>clientX = 80, clientY = 90\<rparr> 2, AnimationFrame 0,
        DocumentMouseMove \<lparr>clientX = 81, clientY = 91\<rparr>, MouseMove \<lparr>clientX = 85, clientY = 95\<rparr> 1,
        MouseLeave, HoverEffect, MouseEnter]"
    by simp
  show ?thesis
    using drag_offset_then_follow [OF playing_mask_2 playing_state_2 first,
        where fl = binary64 and e = "\<lparr>clientX = 50, clientY = 60\<rparr>"
          and e' = "\<lparr>clientX = 80, clientY = 90\<rparr>"]
      drag_offset_then_follow [OF playing_mask_2 playing_state_2 later,
        where fl = binary64 and e = "\<lparr>clientX = 50, clientY = 60\<rparr>"
          and e' = "\<lparr>clientX = 85, clientY = 90\<rparr>"]
      playing_state_2 [of binary64]
    by (simp add: binary64_10 binary64_15 binary64_70 binary64_75)
qed

text \<open>
  Claim C4. A pointer-move on the mask \<open>i\<close> leaves \<^verbatim>\<open>maskStates[j]\<close> as it was for
  every other index \<open>j\<close>, whether or not the mask \<open>i\<close> is being dragged.
\<close>

theorem pointer_move_frame:
  assumes "j \<noteq> i"
  shows "array_get (maskStates (handleMouseMove fl s e i)) j = array_get (maskStates s) j"
  using assms by (rule handleMouseMove_frame)

theorem pointer_move_frame_witness:
  "dragging (handleMouseDown binary64 (handlePlaying binary64 mounted)
      \<lparr>clientX = 50, clientY = 60\<rparr> 2) 2 \<and>
   array_get
     (maskStates
       (handleMouseMove binary64
         (handleMouseDown binary64 (handlePlaying binary64 mounted)
            \<lparr>clientX = 50, clientY = 60\<rparr> 2)
         \<lparr>clientX = 80, clientY = 90\<rparr> 2)) 0 =
     Obj \<lparr>x = 100, y = 100, w = 200, h = 100\<rparr>"
proof -
  let ?s = "handlePlaying binary64 mounted"
  let ?t = "handleMouseDown binary64 ?s \<lparr>clientX = 50, clientY = 60\<rparr> 2"
  have "dragging ?t 2"
    using handleMouseDown_records [OF playing_mask_2 playing_state_2, of binary64]
    by (simp add: dragging_def)
  moreover have "array_get (maskStates (handleMouseMove binary64 ?t \<lparr>clientX = 80, clientY = 90\<rparr> 2)) 0 =
      array_get (maskStates ?t) 0"
    using pointer_move_frame [where j = 0 and i = 2 and fl = binary64 and s = ?t
        and e = "\<lparr>clientX = 80, clientY = 90\<rparr>"] by simp
  ultimately show ?thesis
    by (simp add: handleMouseDown_maskStates playing_state_0)
qed

text \<open>
  Claim C5. A state has one \<^verbatim>\<open>draggingState\<close>, whose index is \<open>None\<close> or one index, so
  at most one mask is being dragged; in every reachable state that index, when there is
  one, is the index of a mounted mask. A pointer-move on the mask \<open>i\<close> changes nothing
  unless \<open>i\<close> is that index.
\<close>

theorem one_drag_at_a_time:
  "(dragging s i \<and> dragging s j \<longrightarrow> i = j) \<and>
   (reachable fl s \<longrightarrow>
      index (draggingState s) = None \<or>
      (\<exists>k mel. index (draggingState s) = Some k \<and> ref_at (maskRefs s) k = Some mel)) \<and>
   (\<not> dragging s i \<longrightarrow> handleMouseMove fl s e i = s)"
proof (intro conjI impI)
  assume "dragging s i \<and> dragging s j"
  then show "i = j" by (auto simp add: dragging_def)
next
  assume "reachable fl s"
  then have "drag_target s" by (rule reachable_drag_target)
  then show "index (draggingState s) = None \<or>
      (\<exists>k mel. index (draggingState s) = Some k \<and> ref_at (maskRefs s) k = Some mel)"
    by (auto simp add: drag_target_def split: option.splits)
next
  assume "\<not> dragging s i"
  then show "handleMouseMove fl s e i = s"
    by (simp add: dragging_def handleMouseMove_idle)
qed

lemma reachable_mounted: "reachable fl mounted"
  by (rule reachable.first_render) (simp add: initial_def mounted_def)

lemma reachable_playing: "reachable fl (handlePlaying fl mounted)"
proof -
  have "reachable fl (step fl mounted Playing)"
    using reachable_mounted by (rule reachable.after_event)
  then show ?thesis by (simp add: mounted_def)
qed

lemma reachable_down: "reachable fl (handleMouseDown fl (handlePlaying fl mounted) e i)"
proof -
  have "reachable fl (step fl (handlePlaying fl mounted) (MouseDown e i))"
    using reachable_playing by (rule reachable.after_event)
  then show ?thesis by simp
qed

theorem one_drag_at_a_time_witness:
  "reachable binary64
     (handleMouseDown binary64 (handlePlaying binary64 mounted) \<lparr>clientX = 50, clientY = 60\<rparr> 2) \<and>
   dragging
     (handleMouseDown binary64 (handlePlaying binary64 mounted) \<lparr>clientX = 50, clientY = 60\<rparr> 2) 2 \<and>
   (\<exists>k mel.
      index (draggingState
        (handleMouseDown binary64 (handlePlaying binary64 mounted)
           \<lparr>clientX = 50, clientY = 60\<rparr> 2)) = Some k \<and>
      ref_at (maskRefs
        (handleMouseDown binary64 (handlePlaying binary64 mounted)
           \<lparr>clientX = 50, clientY = 60\<rparr> 2)) k = Some mel) \<and>
   handleMouseMove binary64
     (handleMouseDown binary64 (handlePlaying binary64 mounted) \<lparr>clientX = 50, clientY = 60\<rparr> 2)
     \<lparr>clientX = 80, clientY = 90\<rparr> 0 =
   handleMouseDown binary64 (handlePlaying binary64 mounted) \<lparr>clientX = 50, clientY = 60\<rparr> 2"
proof -
  let ?t = "handleMouseDown binary64 (handlePlaying binary64 mounted) \<lparr>clientX = 50, clientY = 60\<rparr> 2"
  have r: "reachable binary64 ?t"
    by (rule reachable_down)
  have d: "dragging ?t 2"
    using handleMouseDown_records [OF playing_mask_2 playing_state_2, of binary64]
    by (simp add: dragging_def)
  then have n: "\<not> dragging ?t 0" and a: "index (draggingState ?t) \<noteq> None"
    by (simp_all add: dragging_def)
  show ?thesis
    using one_drag_at_a_time [where s = ?t and i = 0 and j = 0 and fl = binary64
        and e = "\<lparr>clientX = 80, clientY = 90\<rparr>"] r d n a
    by simp
qed

text \<open>
  Claim C6. After a pointer-up the index of \<^verbatim>\<open>draggingState\<close> is \<open>None\<close>; and in a
  state where it is \<open>None\<close>, a pointer-move on any mask leaves \<^verbatim>\<open>maskStates\<close> as it
  was.
\<close>

theorem release_then_idle:
  "index (draggingState (handleMouseUp s)) = None \<and>
   (index (draggingState s) = None \<longrightarrow> maskStates (handleMouseMove fl s e i) = maskStates s)"
  by (simp add: handleMouseUp_index handleMouseMove_idle)

theorem release_then_idle_witness:
  "dragging
     (handleMouseDown binary64 (handlePlaying binary64 mounted) \<lparr>clientX = 50, clientY = 60\<rparr> 2) 2 \<and>
   index (draggingState
     (handleMouseUp
       (handleMouseDown binary64 (handlePlaying binary64 mounted)
          \<lparr>clientX = 50, clientY = 60\<rparr> 2))) = None \<and>
   maskStates
     (handleMouseMove binary64
       (handleMouseUp
         (handleMouseDown binary64 (handlePlaying binary64 mounted)
            \<lparr>clientX = 50, clientY = 60\<rparr> 2))
       \<lparr>clientX = 80, clientY = 90\<rparr> 2) =
   maskStates
     (handleMouseUp
       (handleMouseDown binary64 (handlePlaying binary64 mounted)
          \<lparr>clientX = 50, clientY = 60\<rparr> 2))"
proof -
  let ?t = "handleMouseDown binary64 (handlePlaying binary64 mounted) \<lparr>clientX = 50, clientY = 60\<rparr> 2"
  have d: "dragging ?t 2"
    using handleMouseDown_records [OF playing_mask_2 playing_state_2, of binary64]
    by (simp add: dragging_def)
  have up: "index (draggingState (handleMouseUp ?t)) = None"
    using release_then_idle [where s = ?t] by simp
  show ?thesis
    using release_then_idle [where s = "handleMouseUp ?t" and fl = binary64
        and e = "\<lparr>clientX = 80, clientY = 90\<rparr>" and i = 2] up d
    by simp
qed

section \<open>The HUD: properties\<close>

text \<open>
  What the listener of the document does to the label: it writes the coordinates exactly
  when the \<^verbatim>\<open>isHovering\<close> it closed over is false. Once the hover effect has run, that
  is the flag of the state.
\<close>

lemma document_move_label:
  "map_option hud_text (globalHudRef (handleMouseMove_document fl s e)) =
     (if listener_isHovering s then map_option hud_text (globalHudRef s)
      else map_option (\<lambda>el. Coords (clientX e) (clientY e)) (globalHudRef s))"
  by (simp add: handleMouseMove_document_def Let_def option.map_comp comp_def)

lemma hoverEffect_listener: "listener_isHovering (hoverEffect s) = isHovering s"
  by (simp add: hoverEffect_def)

lemma enter_leave_label:
  "isHovering (handleMouseEnter s) \<and>
   map_option hud_text (globalHudRef (handleMouseEnter s)) =
     map_option (\<lambda>el. Text ''GRAB'') (globalHudRef s) \<and>
   \<not> isHovering (handleMouseLeave s) \<and>
   map_option hud_text (globalHudRef (handleMouseLeave s)) =
     map_option (\<lambda>el. Text ''HOVER'') (globalHudRef s)"
  by (simp add: handleMouseEnter_def handleMouseLeave_def option.map_comp comp_def)

text \<open>
  Claim C7. The claim is that no pointer-move of the document writes coordinates while
  the hover flag is set, and that every one does while it is not. The code does not
  keep it. On the page of the example the pointer enters a mask: the flag is set and the
  label reads \<^verbatim>\<open>GRAB\<close>. The pointer-move that follows, before React has run the hover
  effect again, meets the listener of the first render and writes the coordinates over
  \<^verbatim>\<open>GRAB\<close>, the flag being set. And when the pointer leaves after the effect has run, the
  flag is cleared and the label reads \<^verbatim>\<open>HOVER\<close>, but the next pointer-move meets the
  listener that read the set flag and leaves \<^verbatim>\<open>HOVER\<close>, the flag being clear.
\<close>

theorem hud_label_stale_listener:
  "isHovering (handleMouseEnter mounted) \<and>
   map_option hud_text (globalHudRef (handleMouseEnter mounted)) = Some (Text ''GRAB'') \<and>
   isHovering
     (handleMouseMove_document binary64 (handleMouseEnter mounted)
        \<lparr>clientX = 300, clientY = 200\<rparr>) \<and>
   map_option hud_text
     (globalHudRef
       (handleMouseMove_document binary64 (handleMouseEnter mounted)
          \<lparr>clientX = 300, clientY = 200\<rparr>)) = Some (Coords 300 200) \<and>
   \<not> isHovering (handleMouseLeave (hoverEffect (handleMouseEnter mounted))) \<and>
   map_option hud_text (globalHudRef (handleMouseLeave (hoverEffect (handleMouseEnter mounted)))) =
     Some (Text ''HOVER'') \<and>
   \<not> isHovering
     (handleMouseMove_document binary64 (handleMouseLeave (hoverEffect (handleMouseEnter mounted)))
        \<lparr>clientX = 300, clientY = 200\<rparr>) \<and>
   map_option hud_text
     (globalHudRef
       (handleMouseMove_document binary64
          (handleMouseLeave (hoverEffect (handleMouseEnter mounted)))
          \<lparr>clientX = 300, clientY = 200\<rparr>)) = Some (Text ''HOVER'')"
  by (simp add: handleMouseMove_document_def Let_def handleMouseEnter_def handleMouseLeave_def
      hoverEffect_def mounted_def)

section \<open>Initialisation: properties\<close>

text \<open>
  Where a mask is after \<^verbatim>\<open>initMasks\<close> has anchored it again: moved by the place of
  \<^verbatim>\<open>main\<close> in the viewport, so where it was when \<^verbatim>\<open>main\<close> is in the corner.
\<close>

lemma anchored_rect:
  "getBoundingClientRect origin (anchored (getBoundingClientRect origin mel) mel) =
     (getBoundingClientRect origin mel)
       \<lparr>rect_left := fst origin + rect_left (getBoundingClientRect origin mel),
        rect_top := snd origin + rect_top (getBoundingClientRect origin mel)\<rparr>"
  by (simp add: getBoundingClientRect_def anchored_def split: option.splits prod.splits)

lemma anchored_keeps_rect:
  assumes "origin = (0, 0)"
  shows "getBoundingClientRect origin (anchored (getBoundingClientRect origin mel) mel) =
           getBoundingClientRect origin mel"
  using assms by (simp add: anchored_rect)

text \<open>
  Claim C8, as amended. When \<^verbatim>\<open>main\<close> sits in the corner of the viewport, running the
  initialisation of the \<^verbatim>\<open>playing\<close> event twice gives the \<^verbatim>\<open>maskStates\<close> of running it
  once: the second run measures every mask, anchored again by the first, where the first
  measured it.
\<close>

theorem initMasks_idempotent:
  assumes "main_origin s = (0, 0)"
  shows "maskStates (handlePlaying fl (handlePlaying fl s)) = maskStates (handlePlaying fl s)"
proof -
  have "map (map_option (getBoundingClientRect (main_origin (handlePlaying fl s))))
          (maskRefs (handlePlaying fl s)) =
        map (map_option (getBoundingClientRect (main_origin s))) (maskRefs s)"
    using assms
    by (simp add: handlePlaying_maskRefs handlePlaying_other anchored_keeps_rect
        option.map_comp comp_def)
  then have
    "measure_all (main_origin (handlePlaying fl s)) (maskRefs (handlePlaying fl s)) n =
     measure_all (main_origin s) (maskRefs s) n" for n
    by (rule measure_all_cong)
  moreover have "length (maskRefs (handlePlaying fl s)) = length (maskRefs s)"
    by (simp add: handlePlaying_maskRefs)
  ultimately show ?thesis
    by (simp add: handlePlaying_maskStates)
qed

theorem initMasks_idempotent_witness:
  "main_origin mounted = (0, 0) \<and>
   maskStates (handlePlaying binary64 (handlePlaying binary64 mounted)) =
     maskStates (handlePlaying binary64 mounted) \<and>
   array_get (maskStates (handlePlaying binary64 (handlePlaying binary64 mounted))) 2 =
     Obj \<lparr>x = 40, y = 45, w = 448, h = 144\<rparr>"
proof -
  have "main_origin mounted = (0, 0)"
    by (simp add: mounted_def)
  then show ?thesis
    using initMasks_idempotent [of mounted binary64] playing_state_2 [of binary64]
    by simp
qed

text \<open>
  The claim as it was stated fails where \<^verbatim>\<open>main\<close> does not sit in the corner. With
  \<^verbatim>\<open>main\<close> at (8, 8), as under the 8 pixel margin a browser gives the body, the third
  mask of the example is measured at (40, 45) by the first run and at (48, 53) by the
  second.
\<close>

theorem initMasks_not_idempotent:
  "array_get (maskStates (handlePlaying binary64 (mounted\<lparr>main_origin := (8, 8)\<rparr>))) 2 =
     Obj \<lparr>x = 40, y = 45, w = 448, h = 144\<rparr> \<and>
   array_get
     (maskStates
       (handlePlaying binary64 (handlePlaying binary64 (mounted\<lparr>main_origin := (8, 8)\<rparr>)))) 2 =
     Obj \<lparr>x = 48, y = 53, w = 448, h = 144\<rparr> \<and>
   maskStates (handlePlaying binary64 (handlePlaying binary64 (mounted\<lparr>main_origin := (8, 8)\<rparr>))) \<noteq>
     maskStates (handlePlaying binary64 (mounted\<lparr>main_origin := (8, 8)\<rparr>))"
proof -
  let ?s = "mounted\<lparr>main_origin := (8, 8)\<rparr>"
  let ?m = "mask_at 40 45 448 144"
  have ref: "ref_at (maskRefs ?s) 2 = Some ?m"
    by (simp add: mounted_def ref_at_def)
  have origin: "main_origin ?s = (8, 8)"
    by simp
  have one: "array_get (maskStates (handlePlaying binary64 ?s)) 2 =
      Obj \<lparr>x = 40, y = 45, w = 448, h = 144\<rparr>"
    using handlePlaying_measured [OF ref, of binary64] by (simp add: measured_mask_at)
  have ref': "ref_at (maskRefs (handlePlaying binary64 ?s)) 2 =
      Some (anchored (getBoundingClientRect (8, 8) ?m) ?m)"
    using ref by (simp add: handlePlaying_maskRefs ref_at_map)
  have two: "array_get (maskStates (handlePlaying binary64 (handlePlaying binary64 ?s))) 2 =
      Obj \<lparr>x = 48, y = 53, w = 448, h = 144\<rparr>"
    using handlePlaying_measured [OF ref', of binary64]
    by (simp add: handlePlaying_other anchored_rect)
       (simp add: measured_def getBoundingClientRect_def mask_at_def)
  from one two have "array_get (maskStates (handlePlaying binary64 (handlePlaying binary64 ?s))) 2 \<noteq>
      array_get (maskStates (handlePlaying binary64 ?s)) 2"
    by simp
  then have "maskStates (handlePlaying binary64 (handlePlaying binary64 ?s)) \<noteq>
      maskStates (handlePlaying binary64 ?s)"
    by auto
  with one two show ?thesis
    by simp
qed

section \<open>The render loop: properties\<close>

lemma all_objects_no_undefined: "all_objects ms \<Longrightarrow> Undefined \<notin> set ms"
  by (auto simp add: all_objects_def list_all_iff)

lemma spread_objects: "all_objects ms \<Longrightarrow> spread ms = ms"
  by (induction ms) (auto simp add: all_objects_def spread_def split: entry.splits)

lemma array_get_in_range: "position (array_get ms i) \<noteq> None \<Longrightarrow> i < length ms"
  by (simp add: array_get_def split: if_splits)

lemma all_objects_update:
  "all_objects ms \<Longrightarrow> position e \<noteq> None \<Longrightarrow> i < length ms \<Longrightarrow> all_objects (array_set ms i e)"
  by (auto simp add: all_objects_def array_set_def list_all_iff dest: set_update_subset_insert [THEN subsetD])

lemma measure_all_objects:
  assumes "None \<notin> set refs" and "n \<le> length refs"
  shows "length (measure_all origin refs n) = n \<and> all_objects (measure_all origin refs n)"
  using assms(2)
proof (induction n)
  case 0
  then show ?case by (simp add: measure_all_def all_objects_def)
next
  case (Suc n)
  then have n: "n < length refs" by simp
  then obtain mel where mel: "ref_at refs n = Some mel"
    using assms(1) by (cases "refs ! n") (auto simp add: ref_at_def dest: nth_mem)
  have "measure_all origin refs (Suc n) =
          array_set (measure_all origin refs n) n (Obj (measured (getBoundingClientRect origin mel)))"
    unfolding measure_all_def using mel by simp
  then show ?case
    using Suc n by (simp add: array_set_def all_objects_def)
qed

lemma mounted_update:
  assumes "ref_at refs i = Some a"
  shows "None \<in> set (refs[i := Some b]) \<longleftrightarrow> None \<in> set refs"
proof
  assume "None \<in> set (refs[i := Some b])"
  then show "None \<in> set refs"
    by (auto dest: set_update_subset_insert [THEN subsetD])
next
  assume "None \<in> set refs"
  then obtain j where j: "j < length refs" "refs ! j = None"
    by (auto simp add: in_set_conv_nth)
  then have "j \<noteq> i"
    using assms by (auto simp add: ref_at_def split: if_splits)
  then have "refs[i := Some b] ! j = None"
    using j by simp
  then show "None \<in> set (refs[i := Some b])"
    using j(1) by (metis length_list_update nth_mem)
qed

lemma mounted_map: "None \<in> set (map (map_option f) refs) \<longleftrightarrow> None \<in> set refs"
  by (induction refs) auto

lemma all_mounted_step: "all_mounted (step fl s ev) = all_mounted s"
  by (cases ev)
     (auto simp add: all_mounted_def handlePlaying_maskRefs mounted_map animationFrame_other
       handleMouseMove_document_def Let_def handleMouseDown_def handleMouseMove_def
       handleMouseUp_def handleMouseEnter_def handleMouseLeave_def hoverEffect_def mounted_update
       simp del: set_map split: option.splits prod.splits)

lemma objects_only_step:
  assumes "all_mounted s" and "drag_target s" and "objects_only s"
  shows "objects_only (step fl s ev)"
proof (cases ev)
  case Playing
  have ms: "all_objects (measure_all (main_origin s) (maskRefs s) (length (maskRefs s)))"
    using assms(1) measure_all_objects [of "maskRefs s" "length (maskRefs s)" "main_origin s"]
    by (simp add: all_mounted_def)
  have "frames (handlePlaying fl s) = frames s \<or> frames (handlePlaying fl s) = frames s @ [maskStates s]"
    by (simp add: handlePlaying_def split: prod.splits completion.splits)
  then have "list_all all_objects (frames (handlePlaying fl s))"
    using assms(3) by (auto simp add: objects_only_def)
  then show ?thesis
    using Playing ms assms(3)
    by (simp add: objects_only_def handlePlaying_maskStates split: option.splits)
next
  case (AnimationFrame k)
  have "set (frames (animationFrame fl s k)) \<subseteq> set (frames s)"
    by (auto simp add: animationFrame_def split: prod.splits dest: in_set_takeD in_set_dropD)
  then show ?thesis
    using AnimationFrame assms(3)
    by (auto simp add: objects_only_def animationFrame_other list_all_iff)
next
  case (MouseMove e i)
  show ?thesis
  proof (cases "index (draggingState s) = Some i")
    case False
    then show ?thesis using MouseMove assms(3) by (simp add: handleMouseMove_idle)
  next
    case True
    then have "position (array_get (maskStates s) i) \<noteq> None"
      using assms(2) by (simp add: drag_target_def)
    then have i: "i < length (maskStates s)"
      by (rule array_get_in_range)
    have sp: "spread (maskStates s) = maskStates s"
      using assms(3) by (simp add: objects_only_def spread_objects)
    have "all_objects (array_set (maskStates s) i e')" if "position e' \<noteq> None" for e'
      using assms(3) that i by (simp add: objects_only_def all_objects_update)
    then have "all_objects (maskStates (handleMouseMove fl s e i))"
      using True sp by (simp add: handleMouseMove_def Let_def split: entry.splits)
    moreover have "frames (handleMouseMove fl s e i) = frames s"
      by (simp add: handleMouseMove_def Let_def)
    ultimately show ?thesis
      using MouseMove assms(3) by (simp add: objects_only_def)
  qed
qed (use assms(3) in \<open>auto simp add: objects_only_def handleMouseMove_document_def Let_def
      handleMouseDown_def handleMouseUp_def handleMouseEnter_def handleMouseLeave_def
      hoverEffect_def split: option.splits prod.splits\<close>)

lemma reachable_objects_only:
  assumes "reachable fl s"
  shows "all_mounted s \<longrightarrow> objects_only s"
  using assms
proof (induction rule: reachable.induct)
  case (first_render s)
  then show ?case by (simp add: initial_def objects_only_def all_objects_def)
next
  case (after_event s ev)
  show ?case
  proof
    assume "all_mounted (step fl s ev)"
    then have m: "all_mounted s" by (simp add: all_mounted_step)
    with after_event.IH have "objects_only s" by simp
    with m reachable_drag_target [OF after_event.hyps] show "objects_only (step fl s ev)"
      by (rule objects_only_step)
  qed
qed

lemma reachable_no_undefined:
  assumes "reachable fl s" and "all_mounted s"
  shows "Undefined \<notin> set (maskStates s)" and "k < length (frames s) \<Longrightarrow> Undefined \<notin> set (frames s ! k)"
  using reachable_objects_only [OF assms(1)] assms(2)
  by (auto simp add: objects_only_def list_all_length all_objects_no_undefined)


text \<open>
  Claim C9. A call of \<^verbatim>\<open>draw\<close> on an array without \<^verbatim>\<open>undefined\<close> elements raises no
  error, whatever is missing. Without a video it changes nothing and returns. With a
  video it asks for the next frame, and it does the work of the mask \<open>i\<close> exactly when
  \<open>i\<close> has an element in the array, a canvas and a 2D context: that canvas is cleared
  and drawn on, and the label of \<open>i\<close>, when there is one, gets the rounded position;
  every other canvas and label is left as it was. What one mask lacks does not touch the
  work of another. By \<open>reachable_no_undefined\<close> the arrays of a reachable state have no
  \<^verbatim>\<open>undefined\<close> element when every mask is mounted.
\<close>

theorem draw_skips_what_is_missing:
  assumes "Undefined \<notin> set ms"
  shows "draw fl ms None wn refs labels = (refs, labels, NoVideo) \<and>
         snd (snd (draw fl ms (Some v) wn refs labels)) = Scheduled \<and>
         length (fst (draw fl ms (Some v) wn refs labels)) = length refs \<and>
         length (fst (snd (draw fl ms (Some v) wn refs labels))) = length labels \<and>
         ref_at (fst (draw fl ms (Some v) wn refs labels)) i =
           (if drawable ms refs i then map_option (paint fl v wn (ms ! i)) (ref_at refs i)
            else ref_at refs i) \<and>
         ref_at (fst (snd (draw fl ms (Some v) wn refs labels))) i =
           (if drawable ms refs i \<and> ref_at labels i \<noteq> None then coords_text (ms ! i)
            else ref_at labels i)"
proof -
  obtain refs' labels' where
    fold: "foldl (draw_each fl v wn ms) (refs, labels, Returned) [0..<length ms] =
             (refs', labels', Returned)"
    and len: "length refs' = length refs" "length labels' = length labels"
    and cs: "\<And>k. ref_at refs' k =
               (if k < length ms \<and> drawable ms refs k
                then map_option (paint fl v wn (ms ! k)) (ref_at refs k) else ref_at refs k)"
    and ls: "\<And>k. ref_at labels' k =
               (if k < length ms \<and> drawable ms refs k \<and> ref_at labels k \<noteq> None
                then coords_text (ms ! k) else ref_at labels k)"
    using draw_fold [OF assms order_refl, of fl v wn refs labels] by auto
  have short: "drawable ms refs i \<Longrightarrow> i < length ms"
    by (simp add: drawable_def)
  have "draw fl ms (Some v) wn refs labels = (refs', labels', Scheduled)"
    using fold by (simp add: draw_def)
  then show ?thesis
    using len cs [of i] ls [of i] short by (auto simp add: draw_def)
qed

theorem draw_skips_what_is_missing_witness:
  "Undefined \<notin> set [Obj \<lparr>x = 100, y = 100, w = 200, h = 100\<rparr>,
                      Obj \<lparr>x = 192, y = 500, w = 448, h = 144\<rparr>,
                      Obj \<lparr>x = 40, y = 45, w = 448, h = 144\<rparr>] \<and>
   snd (snd (draw binary64
     [Obj \<lparr>x = 100, y = 100, w = 200, h = 100\<rparr>, Obj \<lparr>x = 192, y = 500, w = 448, h = 144\<rparr>,
      Obj \<lparr>x = 40, y = 45, w = 448, h = 144\<rparr>]
     (Some \<lparr>videoWidth = 1920, videoHeight = 1080\<rparr>) \<lparr>innerWidth = 1280, innerHeight = 720\<rparr>
     [Some blank_canvas, None, Some blank_canvas] [Some NoText, Some NoText, None])) = Scheduled \<and>
   ref_at (fst (draw binary64
     [Obj \<lparr>x = 100, y = 100, w = 200, h = 100\<rparr>, Obj \<lparr>x = 192, y = 500, w = 448, h = 144\<rparr>,
      Obj \<lparr>x = 40, y = 45, w = 448, h = 144\<rparr>]
     (Some \<lparr>videoWidth = 1920, videoHeight = 1080\<rparr>) \<lparr>innerWidth = 1280, innerHeight = 720\<rparr>
     [Some blank_canvas, None, Some blank_canvas] [Some NoText, Some NoText, None])) 0 =
     Some \<lparr>width = 300, height = 150, context2d = True,
           ops = [ClearRect 0 0 300 150,
                  DrawImage (Some \<lparr>sx = 150, sy = 150, sw = 300, sh = 150,
                                   dest_x = 0, dest_y = 0, dest_w = 200, dest_h = 100\<rparr>)]\<rparr> \<and>
   ref_at (fst (snd (draw binary64
     [Obj \<lparr>x = 100, y = 100, w = 200, h = 100\<rparr>, Obj \<lparr>x = 192, y = 500, w = 448, h = 144\<rparr>,
      Obj \<lparr>x = 40, y = 45, w = 448, h = 144\<rparr>]
     (Some \<lparr>videoWidth = 1920, videoHeight = 1080\<rparr>) \<lparr>innerWidth = 1280, innerHeight = 720\<rparr>
     [Some blank_canvas, None, Some blank_canvas] [Some NoText, Some NoText, None]))) 0 =
     Some (Coords 100 100)"
proof -
  let ?ms = "[Obj \<lparr>x = 100, y = 100, w = 200, h = 100\<rparr>, Obj \<lparr>x = 192, y = 500, w = 448, h = 144\<rparr>,
      Obj \<lparr>x = 40, y = 45, w = 448, h = 144\<rparr>]"
  let ?v = "\<lparr>videoWidth = 1920, videoHeight = 1080\<rparr>"
  let ?wn = "\<lparr>innerWidth = 1280, innerHeight = 720\<rparr>"
  let ?refs = "[Some blank_canvas, None, Some blank_canvas]"
  let ?labels = "[Some NoText, Some NoText, None]"
  let ?d = "draw binary64 ?ms (Some ?v) ?wn ?refs ?labels"
  have ok: "Undefined \<notin> set ?ms"
    by simp
  have d0: "drawable ?ms ?refs 0"
    by (simp add: drawable_def ref_at_def blank_canvas_def)
  have c0: "ref_at ?refs 0 = Some blank_canvas" and l0: "ref_at ?labels 0 \<noteq> None"
    by (simp_all add: ref_at_def)
  have img: "drawClipped binary64 ?v ?wn \<lparr>x = 100, y = 100, w = 200, h = 100\<rparr> =
     Some \<lparr>sx = 150, sy = 150, sw = 300, sh = 150,
           dest_x = 0, dest_y = 0, dest_w = 200, dest_h = 100\<rparr>"
    by (rule drawClipped_hd)
  have painted: "paint binary64 ?v ?wn (?ms ! 0) blank_canvas =
      \<lparr>width = 300, height = 150, context2d = True,
       ops = [ClearRect 0 0 300 150,
              DrawImage (Some \<lparr>sx = 150, sy = 150, sw = 300, sh = 150,
                               dest_x = 0, dest_y = 0, dest_w = 200, dest_h = 100\<rparr>)]\<rparr>"
    by (simp add: paint_def clear_def blank_canvas_def img)
  have written: "coords_text (?ms ! 0) = Some (Coords 100 100)"
    by (simp add: coords_text_def Math_round_def)
  have "snd (snd ?d) = Scheduled \<and>
        ref_at (fst ?d) 0 = map_option (paint binary64 ?v ?wn (?ms ! 0)) (ref_at ?refs 0) \<and>
        ref_at (fst (snd ?d)) 0 = coords_text (?ms ! 0)"
    using draw_skips_what_is_missing [OF ok, where fl = binary64 and i = 0 and v = ?v
        and wn = ?wn and refs = ?refs and labels = ?labels] d0 l0
    by (simp only: if_True simp_thms)
  then show ?thesis
    using ok by (simp only: c0 painted written option.map simp_thms)
qed

section \<open>The size of a mask: properties\<close>

text \<open>
  Claim C10. After the initialisation of the \<^verbatim>\<open>playing\<close> event, the \<^verbatim>\<open>w\<close> and
  \<^verbatim>\<open>h\<close> of the \<^verbatim>\<open>maskStates\<close> element of every mounted mask are the width and
  height of the rectangle measured then, and they stay so through every sequence of
  pointer-down, pointer-move, pointer-up, enter, leave, document pointer-move and
  animation-frame events.
\<close>

theorem size_fixed_after_init:
  assumes "ref_at (maskRefs s) i = Some mel" and "Playing \<notin> set evs"
  shows "size_of (array_get (maskStates (run fl (handlePlaying fl s) evs)) i) =
           Some (rect_width (getBoundingClientRect (main_origin s) mel),
                 rect_height (getBoundingClientRect (main_origin s) mel))"
proof -
  have "array_get (maskStates (handlePlaying fl s)) i =
          Obj (measured (getBoundingClientRect (main_origin s) mel))"
    using assms(1) by (rule handlePlaying_measured)
  from run_keeps_size [OF assms(2) this, of fl] show ?thesis
    by (auto simp add: measured_def)
qed

theorem size_fixed_after_init_witness:
  "ref_at (maskRefs mounted) 2 = Some (mask_at 40 45 448 144) \<and>
   Playing \<notin> set [MouseDown \<lparr>clientX = 50, clientY = 60\<rparr> 2,
                    MouseMove \<lparr>clientX = 80, clientY = 90\<rparr> 2,
                    AnimationFrame 0, MouseUp, MouseEnter,
                    DocumentMouseMove \<lparr>clientX = 300, clientY = 200\<rparr>, MouseLeave, HoverEffect] \<and>
   size_of
     (array_get
       (maskStates
         (run binary64 (handlePlaying binary64 mounted)
            [MouseDown \<lparr>clientX = 50, clientY = 60\<rparr> 2,
             MouseMove \<lparr>clientX = 80, clientY = 90\<rparr> 2,
             AnimationFrame 0, MouseUp, MouseEnter,
             DocumentMouseMove \<lparr>clientX = 300, clientY = 200\<rparr>, MouseLeave, HoverEffect])) 2) =
     Some (448, 144)"
proof -
  have no_playing:
    "Playing \<notin> set [MouseDown \<lparr>clientX = 50, clientY = 60\<rparr> 2,
                     MouseMove \<lparr>clientX = 80, clientY = 90\<rparr> 2,
                     AnimationFrame 0, MouseUp, MouseEnter,
                     DocumentMouseMove \<lparr>clientX = 300, clientY = 200\<rparr>, MouseLeave, HoverEffect]"
    by simp
  show ?thesis
    using size_fixed_after_init [OF mounted_mask_2 no_playing, of binary64] mounted_mask_2
    by (simp add: getBoundingClientRect_def mask_at_def mounted_def)
qed

end
